theory Spec2Isabelle
  imports Main "HOL-Library.AList" "HOL-Library.Sublist"
begin

section \<open>Data model (types.ts)\<close>

text \<open>
  A JavaScript \<open>Error\<close> carries its message. Every rejected promise and every
  \<open>throw\<close> of the source is a value \<open>Inl (Error msg)\<close> of a sum type.
\<close>

datatype error = Error string

datatype QuoteState =
    initialized
  | car_found
  | car_details_filled
  | driver_details_filled
  | quote_ready
  | error_state

text \<open>
  The Playwright objects \<open>browser\<close>, \<open>context\<close> and \<open>page\<close> of a session are opaque
  handles; timestamps are the integers \<open>Date.now()\<close> returns (milliseconds).
\<close>

record QuoteSession =
  id' :: string
  browserH :: nat
  contextH :: nat
  pageH :: nat
  state :: QuoteState
  createdAt :: int
  lastActivity :: int

record ProductQuote =
  name :: string
  yearlyPrice :: string
  monthlyPrice :: string
  totalOver12Months :: string
  yearlySaving :: "string option"
  features :: "string list"

section \<open>Session store (automation/session-manager.ts)\<close>

text \<open>
  What the module does to the outside world is recorded as a trace of events: every
  browser launch and every call of \<open>context.close()\<close> and \<open>browser.close()\<close>, in
  the order in which the calls are made (a call is recorded whether or not it throws).
\<close>

datatype event =
    Launch nat
  | ContextClose nat
  | BrowserClose nat

text \<open>
  The module-level \<open>sessions\<close> is a JavaScript \<open>Map\<close>: it keeps insertion order, and
  the reaper iterates over it, so it is an association list with the operations
  \<open>map_of\<close> (\<open>get\<close>), \<open>AList.update\<close> (\<open>set\<close>: in place when the key exists, at the
  end otherwise) and \<open>AList.delete\<close> (\<open>delete\<close>).
\<close>

record world =
  sessions :: "(string \<times> QuoteSession) list"
  trace :: "event list"

text \<open>
  Whether a \<open>close()\<close> call throws is decided by the environment (Playwright), given
  everything that happened so far and the handle that is closed.
\<close>

record env =
  contextCloseThrows :: "event list \<Rightarrow> nat \<Rightarrow> bool"
  browserCloseThrows :: "event list \<Rightarrow> nat \<Rightarrow> bool"

definition SESSION_TIMEOUT_MS :: int where
  "SESSION_TIMEOUT_MS = 10 * 60 * 1000"

definition SWEEP_INTERVAL_MS :: int where
  "SWEEP_INTERVAL_MS = 60000"

text \<open>
  \<open>launchBrowser\<close> (automation/browser.ts) makes four calls in a row:
  \<open>chromium.launch\<close>, \<open>browser.newContext\<close>, \<open>context.addInitScript\<close> and
  \<open>context.newPage\<close>. Each can throw, and which one does, if any, is the
  environment's, with the handles obtained up to there. The function has no
  \<open>try\<close>: when a call after the launch throws, the error propagates and the
  browser that was launched is not closed. The launch is recorded as soon as
  \<open>chromium.launch\<close> has returned.
\<close>

datatype launchOutcome =
    LaunchThrows error
  | NewContextThrows nat error
  | AddInitScriptThrows nat nat error
  | NewPageThrows nat nat error
  | Launched nat nat nat

fun launchBrowser ::
  "launchOutcome \<Rightarrow> world \<Rightarrow> (error + (nat \<times> nat \<times> nat)) \<times> world" where
  "launchBrowser (LaunchThrows e) w = (Inl e, w)"
| "launchBrowser (NewContextThrows b e) w = (Inl e, w\<lparr>trace := trace w @ [Launch b]\<rparr>)"
| "launchBrowser (AddInitScriptThrows b c e) w = (Inl e, w\<lparr>trace := trace w @ [Launch b]\<rparr>)"
| "launchBrowser (NewPageThrows b c e) w = (Inl e, w\<lparr>trace := trace w @ [Launch b]\<rparr>)"
| "launchBrowser (Launched b c p) w = (Inr (b, c, p), w\<lparr>trace := trace w @ [Launch b]\<rparr>)"

text \<open>The error with which \<open>launchBrowser\<close> fails, if it does.\<close>

fun thrownBy :: "launchOutcome \<Rightarrow> error option" where
  "thrownBy (LaunchThrows e) = Some e"
| "thrownBy (NewContextThrows b e) = Some e"
| "thrownBy (AddInitScriptThrows b c e) = Some e"
| "thrownBy (NewPageThrows b c e) = Some e"
| "thrownBy (Launched b c p) = None"

text \<open>
  \<open>createSession\<close>: \<open>newId\<close> is what \<open>uuid()\<close> returns, \<open>t1\<close> and \<open>t2\<close> are the two
  readings of \<open>Date.now()\<close>. A failure of \<open>launchBrowser\<close> propagates and nothing is
  registered.
\<close>

definition createSession ::
  "launchOutcome \<Rightarrow> string \<Rightarrow> int \<Rightarrow> int \<Rightarrow> world
     \<Rightarrow> (error + QuoteSession) \<times> world" where
  "createSession outcome newId t1 t2 w =
     (case launchBrowser outcome w of
        (Inl e, w') \<Rightarrow> (Inl e, w')
      | (Inr (b, c, p), w') \<Rightarrow>
          (let session = \<lparr>id' = newId, browserH = b, contextH = c, pageH = p,
                           state = initialized, createdAt = t1, lastActivity = t2\<rparr>
           in (Inr session, w'\<lparr>sessions := AList.update newId session (sessions w')\<rparr>)))"

text \<open>\<open>getSession\<close>: \<open>now\<close> is the reading of \<open>Date.now()\<close>.\<close>

definition getSession :: "int \<Rightarrow> string \<Rightarrow> world \<Rightarrow> QuoteSession option \<times> world" where
  "getSession now sid w =
     (case map_of (sessions w) sid of
        None \<Rightarrow> (None, w)
      | Some session \<Rightarrow>
          (let session' = session\<lparr>lastActivity := now\<rparr>
           in (Some session', w\<lparr>sessions := AList.update sid session' (sessions w)\<rparr>)))"

definition updateSessionState :: "int \<Rightarrow> string \<Rightarrow> QuoteState \<Rightarrow> world \<Rightarrow> world" where
  "updateSessionState now sid st w =
     (case map_of (sessions w) sid of
        None \<Rightarrow> w
      | Some session \<Rightarrow>
          w\<lparr>sessions :=
               AList.update sid (session\<lparr>state := st, lastActivity := now\<rparr>) (sessions w)\<rparr>)"

text \<open>
  The body of the \<open>try\<close> block of \<open>destroySession\<close>: \<open>context.close()\<close>, then
  \<open>browser.close()\<close>; when the first throws, the second is not reached.
\<close>

definition closeContextAndBrowser :: "env \<Rightarrow> QuoteSession \<Rightarrow> world \<Rightarrow> (error + unit) \<times> world" where
  "closeContextAndBrowser E session w =
     (let w1 = w\<lparr>trace := trace w @ [ContextClose (contextH session)]\<rparr> in
      if contextCloseThrows E (trace w) (contextH session)
      then (Inl (Error ''context.close failed''), w1)
      else
        (let w2 = w1\<lparr>trace := trace w1 @ [BrowserClose (browserH session)]\<rparr> in
         if browserCloseThrows E (trace w1) (browserH session)
         then (Inl (Error ''browser.close failed''), w2)
         else (Inr (), w2)))"

text \<open>
  \<open>destroySession\<close>: the \<open>catch\<close> swallows whatever the teardown threw, and the entry
  is deleted on both paths. The first component is how the call completes.
\<close>

definition destroySession :: "env \<Rightarrow> string \<Rightarrow> world \<Rightarrow> (error + unit) \<times> world" where
  "destroySession E sid w =
     (case map_of (sessions w) sid of
        None \<Rightarrow> (Inr (), w)
      | Some session \<Rightarrow>
          (case closeContextAndBrowser E session w of
             (_, w') \<Rightarrow> (Inr (), w'\<lparr>sessions := AList.delete sid (sessions w')\<rparr>)))"

definition getActiveSessions :: "world \<Rightarrow> nat" where
  "getActiveSessions w = length (sessions w)"

text \<open>
  One run of the \<open>setInterval\<close> callback: \<open>now\<close> is read once, then the entries are
  visited in insertion order and the expired ones (the test of the loop is \<open>expired\<close>)
  destroyed. Deleting the entry being
  visited does not disturb the iteration of a \<open>Map\<close>, and destroying one session does not
  change another, so the loop runs over the entries as they are when the sweep starts.
  The callbacks of different sweeps and of the handlers are taken one after the other.
\<close>

definition expired :: "int \<Rightarrow> QuoteSession \<Rightarrow> bool" where
  "expired now session = (now - lastActivity session > SESSION_TIMEOUT_MS)"

fun sweepLoop :: "env \<Rightarrow> int \<Rightarrow> (string \<times> QuoteSession) list \<Rightarrow> world \<Rightarrow> world" where
  "sweepLoop E now [] w = w"
| "sweepLoop E now ((sid, session) # rest) w =
     (if expired now session
      then sweepLoop E now rest (snd (destroySession E sid w))
      else sweepLoop E now rest w)"

definition sweep :: "env \<Rightarrow> int \<Rightarrow> world \<Rightarrow> world" where
  "sweep E now w = sweepLoop E now (sessions w) w"

text \<open>
  The timer: \<open>n\<close> consecutive sweeps, the first at time \<open>t0\<close>, each one
  \<open>SWEEP_INTERVAL_MS\<close> after the one before, with nothing else touching the store.
\<close>

fun runSweeps :: "env \<Rightarrow> int \<Rightarrow> nat \<Rightarrow> world \<Rightarrow> world" where
  "runSweeps E t0 0 w = w"
| "runSweeps E t0 (Suc n) w = runSweeps E (t0 + SWEEP_INTERVAL_MS) n (sweep E t0 w)"

section \<open>Tool handlers (the server module, in its two copies)\<close>

text \<open>
  The repository holds the server module twice. The two copies register the same four
  tools; they differ in the tool descriptions and in the \<open>catch\<close> blocks of the
  handlers. Each handler is modelled once per copy, with the copy's name as a suffix.

  What a handler awaits from the quote flow on the session's page (the site answering,
  or an exception) is the environment's: a function of the page handle and of the
  arguments the handler passes on.
\<close>

datatype gender = male | female

record CarDetailsInput =
  address :: string
  underFinance :: bool
  purpose :: string
  businessRegistered :: bool
  coverStartDate :: string
  email :: "string option"

record DriverDetailsInput =
  racvMember :: bool
  gender :: gender
  age :: int
  licenceAge :: int
  accidentsLast5Years :: bool

record QuoteResult =
  carDescription :: string
  driverAge :: int
  driverGender :: string
  additionalDrivers :: int
  comprehensive :: "ProductQuote list"
  thirdParty :: "ProductQuote list"

record site =
  findCarByRego :: "nat \<Rightarrow> string \<Rightarrow> string \<Rightarrow> error + string"
  findCarManually :: "nat \<Rightarrow> string \<Rightarrow> string \<Rightarrow> string \<Rightarrow> string \<Rightarrow> error + string"
  fillCarDetails :: "nat \<Rightarrow> CarDetailsInput \<Rightarrow> error + unit"
  fillDriverDetails :: "nat \<Rightarrow> DriverDetailsInput \<Rightarrow> error + unit"
  extractQuoteResults :: "nat \<Rightarrow> error + QuoteResult"

text \<open>
  The text a handler returns is kept as its parts: which message it is, the error message
  it embeds, and for the second copy the guidance that follows the message.
\<close>

datatype guidance = VerifyRegoOrTryManual | CallStartQuoteAgain

datatype step = FillCarDetailsStep | FillDriverDetailsStep | ExtractQuotesStep

datatype content =
    CarFound string string
  | ProvideRegoOrVehicle
  | FailedToStartQuote string "guidance option"
  | SessionNotFoundOrExpired
  | CarDetailsFilled string
  | DriverDetailsFilled string
  | Quotes QuoteResult
  | StepFailed step string bool

record toolResult =
  content :: content
  isError :: bool

definition ok :: "content \<Rightarrow> toolResult" where
  "ok c = \<lparr>content = c, isError = False\<rparr>"

definition failed :: "content \<Rightarrow> toolResult" where
  "failed c = \<lparr>content = c, isError = True\<rparr>"

fun message :: "error \<Rightarrow> string" where
  "message (Error m) = m"

text \<open>JavaScript truthiness of an optional string: defined and not empty.\<close>

fun truthy :: "string option \<Rightarrow> bool" where
  "truthy None = False"
| "truthy (Some s) = (s \<noteq> [])"

text \<open>
  \<open>String.prototype.indexOf\<close>: the index of the first occurrence, \<open>None\<close> for \<open>-1\<close>;
  \<open>includes\<close> (here \<open>includesText\<close>) and \<open>substring\<close> (which swaps its arguments when they are out of order and
  stops at the end of the string).
\<close>

fun indexOf :: "string \<Rightarrow> string \<Rightarrow> nat option" where
  "indexOf [] pat = (if pat = [] then Some 0 else None)"
| "indexOf (c # cs) pat =
     (if prefix pat (c # cs) then Some 0 else map_option Suc (indexOf cs pat))"

definition includesText :: "string \<Rightarrow> string \<Rightarrow> bool" where
  "includesText s pat = (indexOf s pat \<noteq> None)"

definition substring :: "string \<Rightarrow> nat \<Rightarrow> nat \<Rightarrow> string" where
  "substring s a b = take (max a b - min a b) (drop (min a b) s)"

subsection \<open>The second copy: every \<open>catch\<close> destroys the session\<close>

definition startQuoteCatch_part_001 ::
  "env \<Rightarrow> string option \<Rightarrow> error \<Rightarrow> world \<Rightarrow> toolResult \<times> world" where
  "startQuoteCatch_part_001 E sessionId err w =
     (let w' = (if truthy sessionId then snd (destroySession E (the sessionId) w) else w);
          msg = (if message err = [] then ''Unknown error'' else message err);
          isRegoNotFound = (includesText msg ''not found'' \<or> includesText msg (''couldn'' @ [CHR 0x27] @ ''t find''))
      in (failed (FailedToStartQuote msg
                    (Some (if isRegoNotFound then VerifyRegoOrTryManual else CallStartQuoteAgain))),
          w'))"

definition start_quote_part_001 ::
  "env \<Rightarrow> site \<Rightarrow> launchOutcome \<Rightarrow> string \<Rightarrow> int \<Rightarrow> int
     \<Rightarrow> string option \<Rightarrow> string option \<Rightarrow> string option \<Rightarrow> string option
     \<Rightarrow> string option \<Rightarrow> string option \<Rightarrow> world \<Rightarrow> toolResult \<times> world" where
  "start_quote_part_001 E S launch newId t1 t2 rego st carMake carModel carYear bodyType w =
     (case createSession launch newId t1 t2 w of
        (Inl err, w1) \<Rightarrow> startQuoteCatch_part_001 E None err w1
      | (Inr session, w1) \<Rightarrow>
          (if truthy rego \<and> truthy st then
             (case findCarByRego S (pageH session) (the rego) (the st) of
                Inl err \<Rightarrow> startQuoteCatch_part_001 E (Some (id' session)) err w1
              | Inr carDesc \<Rightarrow> (ok (CarFound (id' session) carDesc), w1))
           else if truthy carYear \<and> truthy carMake \<and> truthy carModel \<and> truthy bodyType then
             (case findCarManually S (pageH session) (the carYear) (the carMake) (the carModel)
                     (the bodyType) of
                Inl err \<Rightarrow> startQuoteCatch_part_001 E (Some (id' session)) err w1
              | Inr carDesc \<Rightarrow> (ok (CarFound (id' session) carDesc), w1))
           else
             (case destroySession E (id' session) w1 of
                (Inl err, w2) \<Rightarrow> startQuoteCatch_part_001 E (Some (id' session)) err w2
              | (Inr _, w2) \<Rightarrow> (failed ProvideRegoOrVehicle, w2))))"

definition stepCatch_part_001 ::
  "env \<Rightarrow> step \<Rightarrow> string \<Rightarrow> error \<Rightarrow> world \<Rightarrow> toolResult \<times> world" where
  "stepCatch_part_001 E stp sid err w =
     (failed (StepFailed stp (message err) True), snd (destroySession E sid w))"

definition fill_car_details_part_001 ::
  "env \<Rightarrow> site \<Rightarrow> int \<Rightarrow> string \<Rightarrow> CarDetailsInput \<Rightarrow> world \<Rightarrow> toolResult \<times> world" where
  "fill_car_details_part_001 E S now sid input w =
     (case getSession now sid w of
        (None, w1) \<Rightarrow> (failed SessionNotFoundOrExpired, w1)
      | (Some session, w1) \<Rightarrow>
          (case fillCarDetails S (pageH session) input of
             Inl err \<Rightarrow> stepCatch_part_001 E FillCarDetailsStep sid err w1
           | Inr _ \<Rightarrow> (ok (CarDetailsFilled sid), w1)))"

definition fill_driver_details_part_001 ::
  "env \<Rightarrow> site \<Rightarrow> int \<Rightarrow> string \<Rightarrow> DriverDetailsInput \<Rightarrow> world \<Rightarrow> toolResult \<times> world" where
  "fill_driver_details_part_001 E S now sid input w =
     (case getSession now sid w of
        (None, w1) \<Rightarrow> (failed SessionNotFoundOrExpired, w1)
      | (Some session, w1) \<Rightarrow>
          (case fillDriverDetails S (pageH session) input of
             Inl err \<Rightarrow> stepCatch_part_001 E FillDriverDetailsStep sid err w1
           | Inr _ \<Rightarrow> (ok (DriverDetailsFilled sid), w1)))"

definition get_quotes_part_001 ::
  "env \<Rightarrow> site \<Rightarrow> int \<Rightarrow> string \<Rightarrow> world \<Rightarrow> toolResult \<times> world" where
  "get_quotes_part_001 E S now sid w =
     (case getSession now sid w of
        (None, w1) \<Rightarrow> (failed SessionNotFoundOrExpired, w1)
      | (Some session, w1) \<Rightarrow>
          (case extractQuoteResults S (pageH session) of
             Inl err \<Rightarrow> stepCatch_part_001 E ExtractQuotesStep sid err w1
           | Inr result \<Rightarrow>
               (case destroySession E sid w1 of
                  (Inl err, w2) \<Rightarrow> stepCatch_part_001 E ExtractQuotesStep sid err w2
                | (Inr _, w2) \<Rightarrow> (ok (Quotes result), w2))))"

subsection \<open>The first copy: the \<open>catch\<close> blocks only report\<close>

definition startQuoteCatch_part_000 :: "error \<Rightarrow> world \<Rightarrow> toolResult \<times> world" where
  "startQuoteCatch_part_000 err w = (failed (FailedToStartQuote (message err) None), w)"

definition start_quote_part_000 ::
  "env \<Rightarrow> site \<Rightarrow> launchOutcome \<Rightarrow> string \<Rightarrow> int \<Rightarrow> int
     \<Rightarrow> string option \<Rightarrow> string option \<Rightarrow> string option \<Rightarrow> string option
     \<Rightarrow> string option \<Rightarrow> string option \<Rightarrow> world \<Rightarrow> toolResult \<times> world" where
  "start_quote_part_000 E S launch newId t1 t2 rego st carMake carModel carYear bodyType w =
     (case createSession launch newId t1 t2 w of
        (Inl err, w1) \<Rightarrow> startQuoteCatch_part_000 err w1
      | (Inr session, w1) \<Rightarrow>
          (if truthy rego \<and> truthy st then
             (case findCarByRego S (pageH session) (the rego) (the st) of
                Inl err \<Rightarrow> startQuoteCatch_part_000 err w1
              | Inr carDesc \<Rightarrow> (ok (CarFound (id' session) carDesc), w1))
           else if truthy carYear \<and> truthy carMake \<and> truthy carModel \<and> truthy bodyType then
             (case findCarManually S (pageH session) (the carYear) (the carMake) (the carModel)
                     (the bodyType) of
                Inl err \<Rightarrow> startQuoteCatch_part_000 err w1
              | Inr carDesc \<Rightarrow> (ok (CarFound (id' session) carDesc), w1))
           else
             (case destroySession E (id' session) w1 of
                (Inl err, w2) \<Rightarrow> startQuoteCatch_part_000 err w2
              | (Inr _, w2) \<Rightarrow> (failed ProvideRegoOrVehicle, w2))))"

definition stepCatch_part_000 :: "step \<Rightarrow> error \<Rightarrow> world \<Rightarrow> toolResult \<times> world" where
  "stepCatch_part_000 stp err w = (failed (StepFailed stp (message err) False), w)"

definition fill_car_details_part_000 ::
  "env \<Rightarrow> site \<Rightarrow> int \<Rightarrow> string \<Rightarrow> CarDetailsInput \<Rightarrow> world \<Rightarrow> toolResult \<times> world" where
  "fill_car_details_part_000 E S now sid input w =
     (case getSession now sid w of
        (None, w1) \<Rightarrow> (failed SessionNotFoundOrExpired, w1)
      | (Some session, w1) \<Rightarrow>
          (case fillCarDetails S (pageH session) input of
             Inl err \<Rightarrow> stepCatch_part_000 FillCarDetailsStep err w1
           | Inr _ \<Rightarrow> (ok (CarDetailsFilled sid), w1)))"

definition fill_driver_details_part_000 ::
  "env \<Rightarrow> site \<Rightarrow> int \<Rightarrow> string \<Rightarrow> DriverDetailsInput \<Rightarrow> world \<Rightarrow> toolResult \<times> world" where
  "fill_driver_details_part_000 E S now sid input w =
     (case getSession now sid w of
        (None, w1) \<Rightarrow> (failed SessionNotFoundOrExpired, w1)
      | (Some session, w1) \<Rightarrow>
          (case fillDriverDetails S (pageH session) input of
             Inl err \<Rightarrow> stepCatch_part_000 FillDriverDetailsStep err w1
           | Inr _ \<Rightarrow> (ok (DriverDetailsFilled sid), w1)))"

definition get_quotes_part_000 ::
  "env \<Rightarrow> site \<Rightarrow> int \<Rightarrow> string \<Rightarrow> world \<Rightarrow> toolResult \<times> world" where
  "get_quotes_part_000 E S now sid w =
     (case getSession now sid w of
        (None, w1) \<Rightarrow> (failed SessionNotFoundOrExpired, w1)
      | (Some session, w1) \<Rightarrow>
          (case extractQuoteResults S (pageH session) of
             Inl err \<Rightarrow> stepCatch_part_000 ExtractQuotesStep err w1
           | Inr result \<Rightarrow>
               (case destroySession E sid w1 of
                  (Inl err, w2) \<Rightarrow> stepCatch_part_000 ExtractQuotesStep err w2
                | (Inr _, w2) \<Rightarrow> (ok (Quotes result), w2))))"

section \<open>Quote flow helpers (automation/quote-flow.ts)\<close>

text \<open>
  The page as the polling helpers see it. Time is the clock \<open>Date.now()\<close> reads, in
  milliseconds; it moves when the flow sleeps, and the readings between two sleeps are
  taken as equal. What the page shows and whether a click throws are the environment's,
  given the time of the call:
  \<^item> \<open>clickContinue\<close>: the click on the Continue button, \<open>Some e\<close> when it throws;
  \<^item> \<open>innerText\<close>: \<open>page.evaluate(() => document.body.innerText)\<close>;
  \<^item> \<open>extra\<close>: by how much a sleep started at that time exceeds its minimum (the
    random part of the delay and the lateness of the timer).
\<close>

record page =
  clickContinue :: "int \<Rightarrow> error option"
  innerText :: "int \<Rightarrow> error + string"
  extra :: "int \<Rightarrow> nat"

text \<open>
  \<open>humanDelay(minMs, maxMs)\<close> (automation/browser.ts) sleeps for
  \<open>floor(random * (maxMs - minMs)) + minMs\<close> milliseconds, at least \<open>minMs\<close> as
  \<open>minMs \<le> maxMs\<close> at every call; the result is the clock after the sleep.
\<close>

definition humanDelay :: "page \<Rightarrow> int \<Rightarrow> int \<Rightarrow> int \<Rightarrow> int" where
  "humanDelay P minMs maxMs now = now + minMs + int (extra P now)"

function waitLoop :: "page \<Rightarrow> string \<Rightarrow> int \<Rightarrow> int \<Rightarrow> int \<Rightarrow> (error + bool) \<times> int" where
  "waitLoop P text timeoutMs start now =
     (if now - start < timeoutMs then
        (case innerText P now of
           Inl e \<Rightarrow> (Inl e, now)
         | Inr body \<Rightarrow>
             if includesText body text then (Inr True, now)
             else waitLoop P text timeoutMs start (humanDelay P 2000 2500 now))
      else (Inr False, now))"
  by pat_completeness auto
termination
  by (relation "measure (\<lambda>(P, text, timeoutMs, start, now). nat (timeoutMs - (now - start)))")
     (auto simp: humanDelay_def)

text \<open>\<open>waitForText\<close>: the result and the clock when it returns.\<close>

definition waitForText :: "page \<Rightarrow> string \<Rightarrow> int \<Rightarrow> int \<Rightarrow> (error + bool) \<times> int" where
  "waitForText P text timeoutMs now = waitLoop P text timeoutMs now now"

text \<open>Decimal rendering of a number in a template string.\<close>

function natToString :: "nat \<Rightarrow> string" where
  "natToString n =
     (if n < 10 then [char_of (48 + n)]
      else natToString (n div 10) @ [char_of (48 + n mod 10)])"
  by pat_completeness auto
termination
  by (relation "measure (\<lambda>n. n)") auto

definition didNotAdvance :: "string \<Rightarrow> nat \<Rightarrow> error" where
  "didNotAdvance targetText maxRetries =
     Error (''Page did not advance to '' @ [CHR 0x22] @ targetText @ [CHR 0x22] @ '' after '' @
            natToString maxRetries @ '' attempts'')"

text \<open>
  The state of a run of the flow on a page: the clock, and how many times the Continue
  button has been clicked.
\<close>

record flow =
  clock :: int
  clicks :: nat

function clickLoop ::
  "page \<Rightarrow> string \<Rightarrow> nat \<Rightarrow> nat \<Rightarrow> flow \<Rightarrow> (error + unit) \<times> flow" where
  "clickLoop P targetText maxRetries attempt s =
     (if attempt \<le> maxRetries then
        (let s1 = s\<lparr>clicks := clicks s + 1\<rparr> in
         case clickContinue P (clock s1) of
           Some e \<Rightarrow> (Inl e, s1)
         | None \<Rightarrow>
             (case waitForText P targetText 45000 (clock s1) of
                (Inl e, t) \<Rightarrow> (Inl e, s1\<lparr>clock := t\<rparr>)
              | (Inr found, t) \<Rightarrow>
                  if found then (Inr (), s1\<lparr>clock := t\<rparr>)
                  else clickLoop P targetText maxRetries (attempt + 1) (s1\<lparr>clock := t\<rparr>)))
      else (Inl (didNotAdvance targetText maxRetries), s))"
  by pat_completeness auto
termination
  by (relation "measure (\<lambda>(P, targetText, maxRetries, attempt, s). Suc maxRetries - attempt)")
     auto



section \<open>Text extraction (automation/quote-flow.ts)\<close>

text \<open>
  The four patterns of \<open>extractProductsFromText\<close> are built from literal characters,
  an optional character and greedy repetitions of a character class, around one
  capture group. Strings are lists of 8-bit characters, so \<open>\s\<close> is the white space
  below 256: TAB, LF, VT, FF, CR, space and the no-break space.
\<close>

datatype cclass = Digit | DigitOrComma | Space

fun inClass :: "cclass \<Rightarrow> char \<Rightarrow> bool" where
  "inClass Digit c = (c \<in> set ''0123456789'')"
| "inClass DigitOrComma c = (c \<in> set ''0123456789,'')"
| "inClass Space c =
     (c \<in> set [CHR 0x09, CHR 0x0A, CHR 0x0B, CHR 0x0C, CHR 0x0D, CHR 0x20, CHR 0xA0])"

datatype atom = Lit char | Opt char | Star cclass | Plus cclass

fun consHead :: "char \<Rightarrow> string list \<Rightarrow> string list" where
  "consHead x [] = [[x]]"
| "consHead x (r # rs) = (x # r) # rs"

text \<open>
  The backtracking matcher of a JavaScript regular expression, for a sequence of atoms:
  \<open>bt atoms s\<close> matches the atoms at the start of \<open>s\<close> and returns what each atom
  consumed, on the first path that succeeds. A greedy quantifier first takes a character
  and gives it back only when the rest of the pattern fails.
\<close>

fun bt :: "atom list \<Rightarrow> string \<Rightarrow> string list option" where
  "bt [] s = Some []"
| "bt (Lit c # as) [] = None"
| "bt (Lit c # as) (x # xs) = (if x = c then map_option ((#) [x]) (bt as xs) else None)"
| "bt (Opt c # as) [] = map_option ((#) []) (bt as [])"
| "bt (Opt c # as) (x # xs) =
     (if x = c then
        (case bt as xs of
           Some r \<Rightarrow> Some ([x] # r)
         | None \<Rightarrow> map_option ((#) []) (bt as (x # xs)))
      else map_option ((#) []) (bt as (x # xs)))"
| "bt (Star k # as) [] = map_option ((#) []) (bt as [])"
| "bt (Star k # as) (x # xs) =
     (if inClass k x then
        (case bt (Star k # as) xs of
           Some r \<Rightarrow> Some (consHead x r)
         | None \<Rightarrow> map_option ((#) []) (bt as (x # xs)))
      else map_option ((#) []) (bt as (x # xs)))"
| "bt (Plus k # as) [] = None"
| "bt (Plus k # as) (x # xs) =
     (if inClass k x then map_option (consHead x) (bt (Star k # as) xs) else None)"

text \<open>A pattern without flags: the match is tried at each start position, leftmost first.\<close>

fun search :: "atom list \<Rightarrow> string \<Rightarrow> string list option" where
  "search p [] = bt p []"
| "search p (x # xs) =
     (case bt p (x # xs) of
        Some r \<Rightarrow> Some r
      | None \<Rightarrow> search p xs)"

record regex =
  before :: "atom list"
  group1 :: "atom list"
  after :: "atom list"

text \<open>
  \<open>String.prototype.match\<close> with a pattern that has one capture group: \<open>None\<close> for
  \<open>null\<close>, otherwise element \<open>[1]\<close> of the result, the text of the group.
\<close>

definition match1 :: "string \<Rightarrow> regex \<Rightarrow> string option" where
  "match1 s re =
     map_option (\<lambda>parts. concat (take (length (group1 re)) (drop (length (before re)) parts)))
       (search (before re @ group1 re @ after re) s)"

definition lits :: "string \<Rightarrow> atom list" where
  "lits s = map Lit s"

text \<open>The group \<open>([\d,]+\.?\d*)\<close> that all four patterns share.\<close>

definition amount :: "atom list" where
  "amount = [Plus DigitOrComma, Opt (CHR ''.''), Star Digit]"

definition yearlyRe :: regex where
  "yearlyRe = \<lparr>before = lits ''$'', group1 = amount, after = Star Space # lits ''/Yearly''\<rparr>"

definition monthlyRe :: regex where
  "monthlyRe = \<lparr>before = lits ''$'', group1 = amount, after = Star Space # lits ''/Monthly''\<rparr>"

definition totalRe :: regex where
  "totalRe = \<lparr>before = lits ''($'', group1 = amount,
              after = Star Space # lits ''over 12 months)''\<rparr>"

definition savingRe :: regex where
  "savingRe = \<lparr>before = lits ''Save $'', group1 = amount, after = []\<rparr>"

text \<open>
  The loop of \<open>extractProductsFromText\<close>, with the array \<open>products\<close> it pushes to.
\<close>

fun extractLoop :: "string \<Rightarrow> string list \<Rightarrow> ProductQuote list \<Rightarrow> ProductQuote list" where
  "extractLoop text [] products = products"
| "extractLoop text (productName # rest) products =
     (case indexOf text productName of
        None \<Rightarrow> extractLoop text rest products
      | Some idx \<Rightarrow>
          (let chunk = substring text idx (idx + 500);
               yearly = match1 chunk yearlyRe;
               monthly = match1 chunk monthlyRe;
               total = match1 chunk totalRe;
               saving = match1 chunk savingRe
           in case yearly of
                Some y \<Rightarrow>
                  extractLoop text rest
                    (products @
                     [\<lparr>name = productName,
                       yearlyPrice = ''$'' @ y,
                       monthlyPrice = (case monthly of Some m \<Rightarrow> ''$'' @ m | None \<Rightarrow> ''N/A''),
                       totalOver12Months = (case total of Some t \<Rightarrow> ''$'' @ t | None \<Rightarrow> ''N/A''),
                       yearlySaving = map_option ((@) ''$'') saving,
                       features = []\<rparr>])
              | None \<Rightarrow> extractLoop text rest products))"

definition extractProductsFromText :: "string \<Rightarrow> string list \<Rightarrow> ProductQuote list" where
  "extractProductsFromText text productNames = extractLoop text productNames []"

text \<open>
  The same function with the objects it works on made explicit. Strings are values;
  arrays are objects, and a variable holds a reference to one. The heap keeps the arrays
  of strings and the arrays of quotes apart, as their types \<open>string[]\<close> and
  \<open>ProductQuote[]\<close> do; a reference is an index into its part. \<open>const products = []\<close>
  allocates an array, \<open>products.push\<close> writes to the array behind the reference, and
  \<open>for (const name of productNames)\<close> reads the array behind its reference at every
  step, one index after the other, until the index reaches the length the array has
  then. The patterns are literals without flags, built where they are evaluated: a
  match neither reads nor writes their \<open>lastIndex\<close>. The function returns the reference
  \<open>products\<close>. A reference that points outside the heap does not occur in a run of the
  program; the loop of the model ends at once on one.
\<close>

record heap =
  stringArrays :: "string list list"
  quoteArrays :: "ProductQuote list list"

definition newQuoteArray :: "heap \<Rightarrow> nat \<times> heap" where
  "newQuoteArray h = (length (quoteArrays h), h\<lparr>quoteArrays := quoteArrays h @ [[]]\<rparr>)"

definition push :: "nat \<Rightarrow> ProductQuote \<Rightarrow> heap \<Rightarrow> heap" where
  "push ref q h = h\<lparr>quoteArrays := (quoteArrays h)[ref := quoteArrays h ! ref @ [q]]\<rparr>"

function forOf :: "string \<Rightarrow> nat \<Rightarrow> nat \<Rightarrow> nat \<Rightarrow> heap \<Rightarrow> heap" where
  "forOf text productNames products i h =
     (if productNames < length (stringArrays h) \<and> i < length (stringArrays h ! productNames) then
        (let productName = stringArrays h ! productNames ! i in
         case indexOf text productName of
           None \<Rightarrow> forOf text productNames products (i + 1) h
         | Some idx \<Rightarrow>
             (let chunk = substring text idx (idx + 500);
                  yearly = match1 chunk yearlyRe;
                  monthly = match1 chunk monthlyRe;
                  total = match1 chunk totalRe;
                  saving = match1 chunk savingRe
              in case yearly of
                   Some y \<Rightarrow>
                     forOf text productNames products (i + 1)
                       (push products
                          \<lparr>name = productName,
                           yearlyPrice = ''$'' @ y,
                           monthlyPrice = (case monthly of Some m \<Rightarrow> ''$'' @ m | None \<Rightarrow> ''N/A''),
                           totalOver12Months = (case total of Some t \<Rightarrow> ''$'' @ t | None \<Rightarrow> ''N/A''),
                           yearlySaving = map_option ((@) ''$'') saving,
                           features = []\<rparr> h)
                 | None \<Rightarrow> forOf text productNames products (i + 1) h))
      else h)"
  by pat_completeness auto
termination
  by (relation "measure (\<lambda>(text, productNames, products, i, h).
                  length (stringArrays h ! productNames) - i)")
     (auto simp: push_def)

definition extractProductsFromTextOnHeap :: "string \<Rightarrow> nat \<Rightarrow> heap \<Rightarrow> nat \<times> heap" where
  "extractProductsFromTextOnHeap text productNames h =
     (case newQuoteArray h of
        (products, h1) \<Rightarrow> (products, forOf text productNames products 0 h1))"

section \<open>Example states\<close>

definition exampleSession :: QuoteSession where
  "exampleSession = \<lparr>id' = ''s1'', browserH = 1, contextH = 2, pageH = 3,
                      state = initialized, createdAt = 0, lastActivity = 0\<rparr>"

definition exampleWorld :: world where
  "exampleWorld = \<lparr>sessions = [(''s1'', exampleSession)], trace = [Launch 1]\<rparr>"

definition emptyWorld :: world where
  "emptyWorld = \<lparr>sessions = [], trace = []\<rparr>"

text \<open>An environment where no \<open>close()\<close> throws, and one where closing a context throws.\<close>

definition quietEnv :: env where
  "quietEnv = \<lparr>contextCloseThrows = (\<lambda>_ _. False), browserCloseThrows = (\<lambda>_ _. False)\<rparr>"

definition brokenEnv :: env where
  "brokenEnv = \<lparr>contextCloseThrows = (\<lambda>_ _. True), browserCloseThrows = (\<lambda>_ _. False)\<rparr>"

text \<open>A site on which every step of the flow fails.\<close>

definition failingSite :: site where
  "failingSite =
     \<lparr>findCarByRego = (\<lambda>_ _ _. Inl (Error ''Timeout 45000ms exceeded'')),
      findCarManually = (\<lambda>_ _ _ _ _. Inl (Error ''Timeout 15000ms exceeded'')),
      fillCarDetails = (\<lambda>_ _. Inl (Error ''Failed to fill address via autocomplete'')),
      fillDriverDetails = (\<lambda>_ _. Inl (Error ''Failed to reach quote results page'')),
      extractQuoteResults = (\<lambda>_. Inl (Error ''Target page has been closed''))\<rparr>"

definition exampleCarDetails :: CarDetailsInput where
  "exampleCarDetails =
     \<lparr>address = ''1 Collins St Melbourne'', underFinance = False, purpose = ''Private'',
      businessRegistered = False, coverStartDate = [], email = None\<rparr>"

definition exampleDriverDetails :: DriverDetailsInput where
  "exampleDriverDetails =
     \<lparr>racvMember = False, gender = female, age = 40, licenceAge = 18,
      accidentsLast5Years = False\<rparr>"

text \<open>
  The teardown calls \<open>destroySession\<close> makes for a session with browser \<open>b\<close> and context
  \<open>c\<close>, when the trace so far is \<open>tr\<close>.
\<close>

definition teardownCalls :: "env \<Rightarrow> event list \<Rightarrow> nat \<Rightarrow> nat \<Rightarrow> event list" where
  "teardownCalls E tr b c =
     (if contextCloseThrows E tr c then [ContextClose c] else [ContextClose c, BrowserClose b])"

text \<open>
  The reaper's calls: the trace after destroying the sessions of a list one after the
  other, each with its own browser and context; and the two close calls that belong to
  a session.
\<close>

fun teardownAll :: "env \<Rightarrow> event list \<Rightarrow> QuoteSession list \<Rightarrow> event list" where
  "teardownAll E tr [] = tr"
| "teardownAll E tr (s # ss) =
     teardownAll E (tr @ teardownCalls E tr (browserH s) (contextH s)) ss"

definition closeCallsOf :: "QuoteSession \<Rightarrow> event set" where
  "closeCallsOf s = {ContextClose (contextH s), BrowserClose (browserH s)}"





section \<open>What the patterns mean\<close>

text \<open>
  The language of a pattern, independently of the matcher: an atom consumes a piece of
  text, and a pattern occurs in a string when some part of the string splits into
  pieces, one for each atom in turn.
\<close>

fun consumes :: "atom \<Rightarrow> string \<Rightarrow> bool" where
  "consumes (Lit c) r = (r = [c])"
| "consumes (Opt c) r = (r = [] \<or> r = [c])"
| "consumes (Star k) r = list_all (inClass k) r"
| "consumes (Plus k) r = (r \<noteq> [] \<and> list_all (inClass k) r)"

definition occurs :: "atom list \<Rightarrow> string \<Rightarrow> bool" where
  "occurs p s = (\<exists>a parts b. s = a @ concat parts @ b \<and> list_all2 consumes p parts)"

definition pattern :: "regex \<Rightarrow> atom list" where
  "pattern re = before re @ group1 re @ after re"

text \<open>
  The words of the specification, for the extraction of one product: an amount is digits
  and commas, then an optional point, then digits; a yearly price is a dollar sign, an
  amount, optional white space and \<open>/Yearly\<close>; the first occurrence of a name is at the
  least index where the name starts; a product is quoted when a yearly price occurs in
  the 500 characters that start at the first occurrence of its name.
\<close>

definition amountText :: "string \<Rightarrow> bool" where
  "amountText v =
     (\<exists>n d f. v = n @ d @ f \<and> n \<noteq> [] \<and> list_all (inClass DigitOrComma) n \<and>
              (d = [] \<or> d = ''.'') \<and> list_all (inClass Digit) f)"

definition yearlyPriceIn :: "string \<Rightarrow> bool" where
  "yearlyPriceIn chunk =
     (\<exists>a v ws b. chunk = a @ ''$'' @ v @ ws @ ''/Yearly'' @ b \<and> amountText v \<and>
                 list_all (inClass Space) ws)"

definition firstOccurrence :: "string \<Rightarrow> string \<Rightarrow> nat \<Rightarrow> bool" where
  "firstOccurrence text pat i =
     (i \<le> length text \<and> prefix pat (drop i text) \<and> (\<forall>j<i. \<not> prefix pat (drop j text)))"

definition quotedBySpec :: "string \<Rightarrow> string \<Rightarrow> bool" where
  "quotedBySpec text productName =
     (\<exists>i. firstOccurrence text productName i \<and> yearlyPriceIn (take 500 (drop i text)))"

text \<open>
  The same in terms of the code: the window the loop cuts out for a product name, the
  test that decides whether a quote is pushed, and the quote the body of the loop builds
  from a window.
\<close>

definition window :: "string \<Rightarrow> string \<Rightarrow> string option" where
  "window text productName =
     map_option (\<lambda>idx. substring text idx (idx + 500)) (indexOf text productName)"

definition yearlyInWindow :: "string \<Rightarrow> string \<Rightarrow> bool" where
  "yearlyInWindow text productName =
     (case indexOf text productName of
        None \<Rightarrow> False
      | Some idx \<Rightarrow> match1 (substring text idx (idx + 500)) yearlyRe \<noteq> None)"

definition quoteFrom :: "string \<Rightarrow> string \<Rightarrow> ProductQuote option" where
  "quoteFrom productName chunk =
     (case match1 chunk yearlyRe of
        None \<Rightarrow> None
      | Some y \<Rightarrow>
          Some \<lparr>name = productName,
                yearlyPrice = ''$'' @ y,
                monthlyPrice = (case match1 chunk monthlyRe of Some m \<Rightarrow> ''$'' @ m | None \<Rightarrow> ''N/A''),
                totalOver12Months = (case match1 chunk totalRe of Some t \<Rightarrow> ''$'' @ t | None \<Rightarrow> ''N/A''),
                yearlySaving = map_option ((@) ''$'') (match1 chunk savingRe),
                features = []\<rparr>)"

definition quoteFor :: "string \<Rightarrow> string \<Rightarrow> ProductQuote option" where
  "quoteFor text productName =
     (case window text productName of None \<Rightarrow> None | Some chunk \<Rightarrow> quoteFrom productName chunk)"

text \<open>
  The example of the specification: the product name and the four fragments, with any
  text \<open>g1\<close> ... \<open>g4\<close> in between.
\<close>

definition quoted :: "string \<Rightarrow> string \<Rightarrow> string \<Rightarrow> string \<Rightarrow> string" where
  "quoted g1 g2 g3 g4 =
     ''Comprehensive'' @ g1 @ ''$120.50/Yearly'' @ g2 @ ''$10.50/Monthly'' @ g3 @
     ''($120.50 over 12 months)'' @ g4 @ ''Save $15.00''"

definition startsWithDigit :: "string \<Rightarrow> bool" where
  "startsWithDigit s = (case s of [] \<Rightarrow> False | c # _ \<Rightarrow> inClass Digit c)"

definition specExampleText :: string where
  "specExampleText =
     ''Comprehensive ... $120.50/Yearly ... $10.50/Monthly ... ($120.50 over 12 months) ... Save $15.00''"

text \<open>A text with the same fragments after the name, and another yearly price before them.\<close>

definition twoPricesText :: string where
  "twoPricesText =
     ''Comprehensive $99.00/Yearly $120.50/Yearly $10.50/Monthly ($120.50 over 12 months) Save $15.00''"

text \<open>A page on which the second product has no price.\<close>

definition examplePageText :: string where
  "examplePageText =
     ''Comprehensive Most popular $1,254.36 /Yearly $110.45/Monthly ($1,325.40 over 12 months) Save $71.04 Complete Care Not available''"

text \<open>
  Two heaps that hold the same list of product names, behind different references and
  among different other arrays.
\<close>

definition heapA :: heap where
  "heapA = \<lparr>stringArrays = [[''Comprehensive'', ''Complete Care'']], quoteArrays = []\<rparr>"

definition heapB :: heap where
  "heapB =
     \<lparr>stringArrays = [[''Third Party Property Damage'', ''Third Party Fire & Theft''],
                      [''Comprehensive'', ''Complete Care'']],
      quoteArrays = [[\<lparr>name = ''Third Party Property Damage'', yearlyPrice = ''$412.00'',
                       monthlyPrice = ''N/A'', totalOver12Months = ''N/A'',
                       yearlySaving = None, features = []\<rparr>]]\<rparr>"

section \<open>The states the store can reach\<close>

text \<open>
  The store starts empty and changes only through the operations of the module. The
  first argument collects the ids \<open>createSession\<close> has returned so far.
\<close>

inductive reachable :: "string set \<Rightarrow> world \<Rightarrow> bool" where
  start: "reachable {} emptyWorld"
| create_ok:
    "reachable ids w \<Longrightarrow> fst (createSession launch newId t1 t2 w) = Inr session \<Longrightarrow>
     reachable (insert newId ids) (snd (createSession launch newId t1 t2 w))"
| create_failed:
    "reachable ids w \<Longrightarrow> fst (createSession launch newId t1 t2 w) = Inl err \<Longrightarrow>
     reachable ids (snd (createSession launch newId t1 t2 w))"
| get: "reachable ids w \<Longrightarrow> reachable ids (snd (getSession now sid w))"
| update: "reachable ids w \<Longrightarrow> reachable ids (updateSessionState now sid st w)"
| destroy: "reachable ids w \<Longrightarrow> reachable ids (snd (destroySession E sid w))"
| reap: "reachable ids w \<Longrightarrow> reachable ids (sweep E now w)"

definition storeOk :: "string set \<Rightarrow> world \<Rightarrow> bool" where
  "storeOk ids w =
     (distinct (map fst (sessions w)) \<and> fst ` set (sessions w) \<subseteq> ids \<and>
      list_all (\<lambda>(sid, session). id' session = sid) (sessions w))"

section \<open>Properties of the session store\<close>

lemma delete_absent: "map_of al k = None \<Longrightarrow> AList.delete k al = al"
  by (induction al) (auto simp: AList.delete_eq split: if_splits)

lemma destroySession_sessions:
  "sessions (snd (destroySession E sid w)) = AList.delete sid (sessions w)"
  by (auto simp: destroySession_def closeContextAndBrowser_def Let_def delete_absent
           split: option.splits prod.splits if_splits)

lemma destroySession_returns: "fst (destroySession E sid w) = Inr ()"
  by (auto simp: destroySession_def split: option.splits prod.splits)

lemma destroySession_absent:
  "map_of (sessions w) sid = None \<Longrightarrow> destroySession E sid w = (Inr (), w)"
  by (simp add: destroySession_def)

lemma getSession_absent:
  "map_of (sessions w) sid = None \<Longrightarrow> getSession now sid w = (None, w)"
  by (simp add: getSession_def)

lemma createSession_ok:
  "createSession (Launched b c p) newId t1 t2 w =
     (Inr \<lparr>id' = newId, browserH = b, contextH = c, pageH = p,
           state = initialized, createdAt = t1, lastActivity = t2\<rparr>,
      w\<lparr>trace := trace w @ [Launch b],
        sessions := AList.update newId
           \<lparr>id' = newId, browserH = b, contextH = c, pageH = p,
            state = initialized, createdAt = t1, lastActivity = t2\<rparr> (sessions w)\<rparr>)"
  by (simp add: createSession_def Let_def)

lemma createSession_fails:
  "thrownBy outcome = Some err \<Longrightarrow>
   fst (createSession outcome newId t1 t2 w) = Inl err \<and>
   sessions (snd (createSession outcome newId t1 t2 w)) = sessions w"
  by (cases outcome) (simp_all add: createSession_def)

lemma createSession_launch_throws:
  "createSession (LaunchThrows err) newId t1 t2 w = (Inl err, w)"
  by (simp add: createSession_def)

text \<open>
  When a call of \<open>launchBrowser\<close> after the launch throws, \<open>createSession\<close> fails with a
  browser launched that no session owns and nothing closes.
\<close>

lemma createSession_fails_after_launch:
  "createSession (NewContextThrows b err) newId t1 t2 w =
     (Inl err, w\<lparr>trace := trace w @ [Launch b]\<rparr>)"
  "createSession (AddInitScriptThrows b c err) newId t1 t2 w =
     (Inl err, w\<lparr>trace := trace w @ [Launch b]\<rparr>)"
  "createSession (NewPageThrows b c err) newId t1 t2 w =
     (Inl err, w\<lparr>trace := trace w @ [Launch b]\<rparr>)"
  by (simp_all add: createSession_def)

text \<open>
  C1. For every session id: \<open>destroySession\<close> returns normally; afterwards
  \<open>getSession\<close> on that id returns absent (and changes nothing); and a second
  \<open>destroySession\<close> on that id, whatever the browser would do, returns normally and
  leaves the whole state as it is: the store is unchanged and the trace of teardown
  calls gets no new entry.
\<close>

theorem destroySession_twice:
  "fst (destroySession E sid w) = Inr () \<and>
   getSession now sid (snd (destroySession E sid w)) = (None, snd (destroySession E sid w)) \<and>
   destroySession E' sid (snd (destroySession E sid w)) = (Inr (), snd (destroySession E sid w))"
  by (simp add: destroySession_returns destroySession_sessions getSession_absent
        destroySession_absent AList.delete_conv)

text \<open>
  C10. For every registered session id, \<open>destroySession\<close> returns normally and the
  entry is gone from the store, also when the teardown throws. When \<open>context.close()\<close>
  throws, the only teardown call made is that one: \<open>browser.close()\<close> is not called.
  When it does not throw, both calls are made, in that order.
\<close>

theorem destroySession_teardown_throws:
  "map_of (sessions w) sid = Some session \<Longrightarrow>
     fst (destroySession E sid w) = Inr () \<and>
     map_of (sessions (snd (destroySession E sid w))) sid = None \<and>
     trace (snd (destroySession E sid w)) =
       (if contextCloseThrows E (trace w) (contextH session)
        then trace w @ [ContextClose (contextH session)]
        else trace w @ [ContextClose (contextH session), BrowserClose (browserH session)])"
  by (simp add: destroySession_returns destroySession_sessions AList.delete_conv)
     (simp add: destroySession_def closeContextAndBrowser_def Let_def)

theorem destroySession_teardown_throws_witness:
  "map_of (sessions exampleWorld) ''s1'' = Some exampleSession \<and>
   contextCloseThrows brokenEnv (trace exampleWorld) (contextH exampleSession) \<and>
   fst (destroySession brokenEnv ''s1'' exampleWorld) = Inr () \<and>
   sessions (snd (destroySession brokenEnv ''s1'' exampleWorld)) = [] \<and>
   trace (snd (destroySession brokenEnv ''s1'' exampleWorld)) = [Launch 1, ContextClose 2]"
proof -
  have h: "map_of (sessions exampleWorld) ''s1'' = Some exampleSession"
    by (simp add: exampleWorld_def)
  have s: "sessions (snd (destroySession brokenEnv ''s1'' exampleWorld)) = []"
    by (simp add: destroySession_sessions exampleWorld_def AList.delete_eq)
  show ?thesis
    using h s destroySession_teardown_throws [OF h, of brokenEnv]
    by (simp add: brokenEnv_def exampleWorld_def exampleSession_def)
qed

lemma getSession_present:
  "map_of (sessions w) sid = Some s \<Longrightarrow>
   getSession now sid w =
     (Some (s\<lparr>lastActivity := now\<rparr>),
      w\<lparr>sessions := AList.update sid (s\<lparr>lastActivity := now\<rparr>) (sessions w)\<rparr>)"
  by (simp add: getSession_def Let_def)

lemma updateSessionState_present:
  "map_of (sessions w) sid = Some s \<Longrightarrow>
   updateSessionState now sid st w =
     w\<lparr>sessions := AList.update sid (s\<lparr>state := st, lastActivity := now\<rparr>) (sessions w)\<rparr>"
  by (simp add: updateSessionState_def)

text \<open>
  C4, as the claim states it, fails: \<open>updateSessionState\<close> on an existing session
  moves its \<open>lastActivity\<close> (here from \<open>0\<close> to the current time \<open>5\<close>).
\<close>

theorem updateSessionState_refreshes:
  "map_option lastActivity (map_of (sessions exampleWorld) ''s1'') = Some 0 \<and>
   map_option lastActivity
     (map_of (sessions (updateSessionState 5 ''s1'' car_found exampleWorld)) ''s1'') = Some 5"
  by (simp add: updateSessionState_def exampleWorld_def exampleSession_def)

text \<open>
  C4, amended. \<open>getSession\<close> on a present id returns the session with its
  \<open>lastActivity\<close> set to the current time and stores it so; \<open>updateSessionState\<close> on a
  present id sets the state and also sets \<open>lastActivity\<close> to the current time; both
  leave the entry of every other id as it was.
\<close>

theorem lastActivity_refresh:
  "map_of (sessions w) sid = Some s \<Longrightarrow>
     fst (getSession now sid w) = Some (s\<lparr>lastActivity := now\<rparr>) \<and>
     map_of (sessions (snd (getSession now sid w))) sid = Some (s\<lparr>lastActivity := now\<rparr>) \<and>
     map_of (sessions (updateSessionState now sid st w)) sid =
       Some (s\<lparr>state := st, lastActivity := now\<rparr>) \<and>
     (other \<noteq> sid \<longrightarrow>
        map_of (sessions (snd (getSession now sid w))) other = map_of (sessions w) other \<and>
        map_of (sessions (updateSessionState now sid st w)) other = map_of (sessions w) other)"
  by (simp add: getSession_present updateSessionState_present AList.update_conv')

theorem lastActivity_refresh_witness:
  "map_of (sessions exampleWorld) ''s1'' = Some exampleSession \<and>
   map_option lastActivity (fst (getSession 7 ''s1'' exampleWorld)) = Some 7 \<and>
   map_option lastActivity
     (map_of (sessions (updateSessionState 7 ''s1'' car_found exampleWorld)) ''s1'') = Some 7 \<and>
   ''s2'' \<noteq> ''s1'' \<and>
   map_of (sessions (updateSessionState 7 ''s1'' car_found exampleWorld)) ''s2'' = None"
proof -
  have h: "map_of (sessions exampleWorld) ''s1'' = Some exampleSession"
    by (simp add: exampleWorld_def)
  have n: "map_of (sessions exampleWorld) ''s2'' = None"
    by (simp add: exampleWorld_def)
  show ?thesis
    using h n lastActivity_refresh [OF h, of 7 car_found "''s2''"]
    by simp
qed

subsection \<open>The idle reaper\<close>

lemma sweepLoop_sessions:
  "sessions (sweepLoop E now es w) =
     filter (\<lambda>p. fst p \<notin> fst ` set (filter (\<lambda>q. expired now (snd q)) es)) (sessions w)"
proof (induction es arbitrary: w)
  case Nil
  then show ?case by simp
next
  case (Cons e es)
  obtain sid s where e: "e = (sid, s)" by (cases e)
  show ?case
    by (auto simp: e Cons.IH destroySession_sessions AList.delete_eq
             intro!: filter_cong)
qed

lemma distinct_keys_expired:
  assumes "distinct (map fst al)" "p \<in> set al"
  shows "fst p \<in> fst ` set (filter (\<lambda>q. expired now (snd q)) al) \<longleftrightarrow> expired now (snd p)"
proof
  assume "fst p \<in> fst ` set (filter (\<lambda>q. expired now (snd q)) al)"
  then obtain q where q: "q \<in> set al" "expired now (snd q)" "fst q = fst p" by auto
  with assms have "q = p"
    by (metis eq_key_imp_eq_value prod.collapse)
  with q show "expired now (snd p)" by simp
next
  assume "expired now (snd p)"
  with assms show "fst p \<in> fst ` set (filter (\<lambda>q. expired now (snd q)) al)" by force
qed

lemma sweep_sessions:
  assumes "distinct (map fst (sessions w))"
  shows "sessions (sweep E now w) = filter (\<lambda>p. \<not> expired now (snd p)) (sessions w)"
  unfolding sweep_def sweepLoop_sessions
  using distinct_keys_expired [OF assms]
  by (intro filter_cong refl) simp

lemma distinct_sweep:
  "distinct (map fst (sessions w)) \<Longrightarrow> distinct (map fst (sessions (sweep E now w)))"
  by (simp add: sweep_sessions distinct_map_filter)

lemma runSweeps_sessions:
  "distinct (map fst (sessions w)) \<Longrightarrow>
   sessions (runSweeps E t0 n w) =
     filter (\<lambda>p. \<forall>k<n. \<not> expired (t0 + int k * SWEEP_INTERVAL_MS) (snd p)) (sessions w)"
proof (induction n arbitrary: t0 w)
  case 0
  then show ?case by simp
next
  case (Suc n)
  have "(\<forall>k<Suc n. \<not> expired (t0 + int k * SWEEP_INTERVAL_MS) p) \<longleftrightarrow>
        (\<not> expired t0 p \<and> (\<forall>k<n. \<not> expired (t0 + SWEEP_INTERVAL_MS + int k * SWEEP_INTERVAL_MS) p))" for p
    by (auto simp: less_Suc_eq_0_disj algebra_simps)
  then have eq: "(\<lambda>p. \<forall>k<Suc n. \<not> expired (t0 + int k * SWEEP_INTERVAL_MS) (snd p)) =
        (\<lambda>p. \<not> expired t0 (snd p) \<and> (\<forall>k<n. \<not> expired (t0 + SWEEP_INTERVAL_MS + int k * SWEEP_INTERVAL_MS) (snd p)))"
    by simp
  have "sessions (runSweeps E t0 (Suc n) w) =
        filter (\<lambda>p. \<forall>k<n. \<not> expired (t0 + SWEEP_INTERVAL_MS + int k * SWEEP_INTERVAL_MS) (snd p))
          (sessions (sweep E t0 w))"
    using Suc.IH [OF distinct_sweep [OF Suc.prems]] by simp
  also have "\<dots> = filter (\<lambda>p. \<forall>k<Suc n. \<not> expired (t0 + int k * SWEEP_INTERVAL_MS) (snd p)) (sessions w)"
    unfolding eq by (simp only: sweep_sessions [OF Suc.prems] filter_filter)
  finally show ?case .
qed

lemma map_of_filter_distinct:
  "distinct (map fst al) \<Longrightarrow>
   map_of (filter P al) k =
     (case map_of al k of None \<Rightarrow> None | Some v \<Rightarrow> if P (k, v) then Some v else None)"
  by (induction al) (auto split: option.splits simp: map_of_eq_None_iff image_iff)

lemma some_sweep_expires:
  "\<exists>k. expired (t0 + int k * SWEEP_INTERVAL_MS) s"
proof -
  define k where "k = nat (lastActivity s + SESSION_TIMEOUT_MS - t0) + 1"
  have "t0 + int k * SWEEP_INTERVAL_MS - lastActivity s > SESSION_TIMEOUT_MS"
    unfolding k_def SWEEP_INTERVAL_MS_def by simp
  then show ?thesis unfolding expired_def by blast
qed

lemma runSweeps_eventually:
  assumes "distinct (map fst (sessions w))"
  shows "\<exists>n. \<forall>m\<ge>n. map_of (sessions (runSweeps E t0 m w)) sid = None"
proof (cases "map_of (sessions w) sid")
  case None
  then show ?thesis
    by (simp add: runSweeps_sessions [OF assms] map_of_filter_distinct [OF assms])
next
  case (Some s)
  obtain k where k: "expired (t0 + int k * SWEEP_INTERVAL_MS) s"
    using some_sweep_expires by blast
  have "map_of (sessions (runSweeps E t0 m w)) sid = None" if "m \<ge> Suc k" for m
  proof -
    from that k have "\<exists>j<m. expired (t0 + int j * SWEEP_INTERVAL_MS) s"
      by (intro exI [of _ k]) simp
    then show ?thesis
      by (simp add: runSweeps_sessions [OF assms] map_of_filter_distinct [OF assms] Some)
  qed
  then show ?thesis by blast
qed

lemma destroySession_trace:
  "map_of (sessions w) sid = Some s \<Longrightarrow>
   trace (snd (destroySession E sid w)) = trace w @ teardownCalls E (trace w) (browserH s) (contextH s)"
  by (simp add: destroySession_def closeContextAndBrowser_def Let_def teardownCalls_def)

lemma sweepLoop_trace:
  assumes "distinct (map fst es)"
    and "\<And>sid s. (sid, s) \<in> set es \<Longrightarrow> map_of (sessions w) sid = Some s"
  shows "trace (sweepLoop E now es w) =
           teardownAll E (trace w) (map snd (filter (\<lambda>p. expired now (snd p)) es))"
  using assms
proof (induction es arbitrary: w)
  case Nil
  then show ?case by simp
next
  case (Cons e es)
  obtain sid s where e: "e = (sid, s)" by (cases e)
  have d: "distinct (map fst es)" and n: "sid \<notin> fst ` set es"
    using Cons.prems(1) by (simp_all add: e)
  have here: "map_of (sessions w) sid = Some s"
    using Cons.prems(2) [of sid s] by (simp add: e)
  show ?case
  proof (cases "expired now s")
    case False
    have "trace (sweepLoop E now es w) =
            teardownAll E (trace w) (map snd (filter (\<lambda>p. expired now (snd p)) es))"
      by (rule Cons.IH [OF d]) (simp add: Cons.prems(2))
    with False show ?thesis by (simp add: e)
  next
    case True
    let ?w = "snd (destroySession E sid w)"
    have rest: "map_of (sessions ?w) sid' = Some s'" if "(sid', s') \<in> set es" for sid' s'
    proof -
      from that n have "sid' \<noteq> sid" by force
      moreover have "map_of (sessions w) sid' = Some s'"
        using that Cons.prems(2) [of sid' s'] by simp
      ultimately show ?thesis
        by (simp add: destroySession_sessions AList.delete_conv)
    qed
    have "trace (sweepLoop E now es ?w) =
            teardownAll E (trace ?w) (map snd (filter (\<lambda>p. expired now (snd p)) es))"
      by (rule Cons.IH [OF d]) (rule rest)
    with True show ?thesis
      by (simp add: e destroySession_trace [OF here])
  qed
qed

lemma sweep_trace:
  assumes "distinct (map fst (sessions w))"
  shows "trace (sweep E now w) =
           teardownAll E (trace w) (map snd (filter (\<lambda>p. expired now (snd p)) (sessions w)))"
  unfolding sweep_def
  by (rule sweepLoop_trace [OF assms]) (simp add: assms)

lemma teardownCalls_closeCallsOf:
  "set (teardownCalls E tr (browserH s) (contextH s)) \<subseteq> closeCallsOf s"
  "ContextClose (contextH s) \<in> set (teardownCalls E tr (browserH s) (contextH s))"
  by (simp_all add: teardownCalls_def closeCallsOf_def)

lemma teardownAll_events:
  "\<exists>ev. teardownAll E tr ss = tr @ ev \<and> set ev \<subseteq> (\<Union>s\<in>set ss. closeCallsOf s) \<and>
        (\<forall>s\<in>set ss. ContextClose (contextH s) \<in> set ev)"
proof (induction ss arbitrary: tr)
  case Nil
  then show ?case by simp
next
  case (Cons s ss)
  let ?c = "teardownCalls E tr (browserH s) (contextH s)"
  from Cons [of "tr @ ?c"] obtain ev where
    ev: "teardownAll E (tr @ ?c) ss = (tr @ ?c) @ ev" "set ev \<subseteq> (\<Union>s\<in>set ss. closeCallsOf s)"
        "\<forall>s\<in>set ss. ContextClose (contextH s) \<in> set ev"
    by blast
  have "teardownAll E tr (s # ss) = tr @ (?c @ ev)"
    using ev(1) by simp
  moreover have "set (?c @ ev) \<subseteq> (\<Union>s\<in>set (s # ss). closeCallsOf s)"
    using ev(2) teardownCalls_closeCallsOf(1) [of E tr s] by auto
  moreover have "\<forall>x\<in>set (s # ss). ContextClose (contextH x) \<in> set (?c @ ev)"
    using ev(3) teardownCalls_closeCallsOf(2) [of s E tr] by auto
  ultimately show ?case by blast
qed

lemma sweep_new_calls:
  assumes "distinct (map fst (sessions w))"
  shows "prefix (trace w) (trace (sweep E now w))"
    and "set (drop (length (trace w)) (trace (sweep E now w))) \<subseteq>
           (\<Union>p\<in>set (filter (\<lambda>p. expired now (snd p)) (sessions w)). closeCallsOf (snd p))"
    and "map_of (sessions w) sid = Some s \<Longrightarrow> expired now s \<Longrightarrow>
           ContextClose (contextH s) \<in> set (drop (length (trace w)) (trace (sweep E now w)))"
proof -
  let ?ss = "map snd (filter (\<lambda>p. expired now (snd p)) (sessions w))"
  obtain ev where ev: "teardownAll E (trace w) ?ss = trace w @ ev"
      "set ev \<subseteq> (\<Union>s\<in>set ?ss. closeCallsOf s)"
      "\<forall>s\<in>set ?ss. ContextClose (contextH s) \<in> set ev"
    using teardownAll_events [of E "trace w" ?ss] by blast
  have t: "trace (sweep E now w) = trace w @ ev"
    by (simp add: sweep_trace [OF assms] ev(1))
  show "prefix (trace w) (trace (sweep E now w))"
    by (simp add: t)
  show "set (drop (length (trace w)) (trace (sweep E now w))) \<subseteq>
           (\<Union>p\<in>set (filter (\<lambda>p. expired now (snd p)) (sessions w)). closeCallsOf (snd p))"
    using ev(2) by (auto simp: t)
  show "ContextClose (contextH s) \<in> set (drop (length (trace w)) (trace (sweep E now w)))"
    if "map_of (sessions w) sid = Some s" "expired now s"
  proof -
    from that have "(sid, s) \<in> set (sessions w)" by (auto dest: map_of_SomeD)
    with that(2) have "s \<in> set ?ss" by force
    with ev(3) have "ContextClose (contextH s) \<in> set ev" by blast
    then show ?thesis by (simp add: t)
  qed
qed

lemma drop_longer_prefix:
  "prefix a b \<Longrightarrow> prefix b c \<Longrightarrow> set (drop (length b) c) \<subseteq> set (drop (length a) c)"
  by (auto simp: prefix_def)

lemma runSweeps_trace_prefix:
  "distinct (map fst (sessions w)) \<Longrightarrow> prefix (trace w) (trace (runSweeps E t0 n w))"
proof (induction n arbitrary: t0 w)
  case 0
  then show ?case by simp
next
  case (Suc n)
  have "prefix (trace w) (trace (sweep E t0 w))"
    by (rule sweep_new_calls(1) [OF Suc.prems])
  moreover have "prefix (trace (sweep E t0 w)) (trace (runSweeps E (t0 + SWEEP_INTERVAL_MS) n (sweep E t0 w)))"
    by (rule Suc.IH [OF distinct_sweep [OF Suc.prems]])
  ultimately show ?case by (auto intro: prefix_order.trans)
qed

lemma runSweeps_teardown:
  "distinct (map fst (sessions w)) \<Longrightarrow> map_of (sessions w) sid = Some s \<Longrightarrow>
   map_of (sessions (runSweeps E t0 n w)) sid = None \<Longrightarrow>
   ContextClose (contextH s) \<in> set (drop (length (trace w)) (trace (runSweeps E t0 n w)))"
proof (induction n arbitrary: t0 w)
  case 0
  then show ?case by simp
next
  case (Suc n)
  let ?w = "sweep E t0 w"
  let ?final = "runSweeps E (t0 + SWEEP_INTERVAL_MS) n ?w"
  have d: "distinct (map fst (sessions ?w))"
    by (rule distinct_sweep [OF Suc.prems(1)])
  have p1: "prefix (trace w) (trace ?w)"
    by (rule sweep_new_calls(1) [OF Suc.prems(1)])
  have p2: "prefix (trace ?w) (trace ?final)"
    by (rule runSweeps_trace_prefix [OF d])
  show ?case
  proof (cases "expired t0 s")
    case True
    have "ContextClose (contextH s) \<in> set (drop (length (trace w)) (trace ?w))"
      by (rule sweep_new_calls(3) [OF Suc.prems(1,2) True])
    with p1 p2 show ?thesis
      by (auto simp: prefix_def)
  next
    case False
    have "map_of (sessions ?w) sid = Some s"
      using False Suc.prems(2)
      by (simp add: sweep_sessions [OF Suc.prems(1)] map_of_filter_distinct [OF Suc.prems(1)])
    moreover have "map_of (sessions ?final) sid = None"
      using Suc.prems(3) by simp
    ultimately have "ContextClose (contextH s) \<in> set (drop (length (trace ?w)) (trace ?final))"
      by (rule Suc.IH [OF d])
    with drop_longer_prefix [OF p1 p2] show ?thesis by auto
  qed
qed

lemma runSweeps_eventually_closed:
  assumes "distinct (map fst (sessions w))" and p: "map_of (sessions w) sid = Some s"
  shows "\<exists>n. \<forall>m\<ge>n. map_of (sessions (runSweeps E t0 m w)) sid = None \<and>
               ContextClose (contextH s) \<in>
                 set (drop (length (trace w)) (trace (runSweeps E t0 m w)))"
proof -
  obtain n where n: "\<forall>m\<ge>n. map_of (sessions (runSweeps E t0 m w)) sid = None"
    using runSweeps_eventually [OF assms(1)] by blast
  have "map_of (sessions (runSweeps E t0 m w)) sid = None \<and>
        ContextClose (contextH s) \<in> set (drop (length (trace w)) (trace (runSweeps E t0 m w)))"
    if "m \<ge> n" for m
  proof -
    from n that have a: "map_of (sessions (runSweeps E t0 m w)) sid = None" by simp
    from runSweeps_teardown [OF assms(1) p a] a show ?thesis by simp
  qed
  then show ?thesis by (intro exI [of _ n]) simp
qed

text \<open>
  C9. With the callbacks taken one after the other and the store a \<open>Map\<close> (one entry
  per id), a sweep at time \<open>now\<close> destroys exactly the sessions whose \<open>lastActivity\<close>
  is more than \<open>SESSION_TIMEOUT_MS\<close> (10 minutes) before \<open>now\<close>: they are removed from
  the store and the others are kept as they are; the calls the sweep makes are the
  teardown calls of \<open>destroySession\<close> for the expired sessions, in the order of the
  store, so \<open>context.close()\<close> is called for every expired session and every call made
  is a close call of an expired session. A session that \<open>getSession\<close> touched at time
  \<open>t\<close> survives every sweep that runs no later than \<open>t + SESSION_TIMEOUT_MS\<close>. With a
  sweep every \<open>SWEEP_INTERVAL_MS\<close> (one minute) and nothing else touching the store,
  every id is absent after enough sweeps and stays absent, and the context of a session
  that was in the store has been closed by then.
\<close>

theorem idle_reaper:
  assumes "distinct (map fst (sessions w))"
  shows "sessions (sweep E now w) = filter (\<lambda>p. \<not> expired now (snd p)) (sessions w) \<and>
         trace (sweep E now w) =
           teardownAll E (trace w) (map snd (filter (\<lambda>p. expired now (snd p)) (sessions w))) \<and>
         (map_of (sessions w) sid = Some s \<and> expired now s \<longrightarrow>
            ContextClose (contextH s) \<in> set (drop (length (trace w)) (trace (sweep E now w)))) \<and>
         set (drop (length (trace w)) (trace (sweep E now w))) \<subseteq>
           (\<Union>p\<in>set (filter (\<lambda>p. expired now (snd p)) (sessions w)). closeCallsOf (snd p)) \<and>
         (map_of (sessions w) sid = Some s \<and> now - t \<le> SESSION_TIMEOUT_MS \<longrightarrow>
            map_of (sessions (sweep E now (snd (getSession t sid w)))) sid =
              Some (s\<lparr>lastActivity := t\<rparr>)) \<and>
         (\<exists>n. \<forall>m\<ge>n. map_of (sessions (runSweeps E t0 m w)) sid' = None) \<and>
         (map_of (sessions w) sid = Some s \<longrightarrow>
            (\<exists>n. \<forall>m\<ge>n. map_of (sessions (runSweeps E t0 m w)) sid = None \<and>
               ContextClose (contextH s) \<in>
                 set (drop (length (trace w)) (trace (runSweeps E t0 m w)))))"
proof (intro conjI impI)
  show "sessions (sweep E now w) = filter (\<lambda>p. \<not> expired now (snd p)) (sessions w)"
    by (rule sweep_sessions [OF assms])
  show "trace (sweep E now w) =
          teardownAll E (trace w) (map snd (filter (\<lambda>p. expired now (snd p)) (sessions w)))"
    by (rule sweep_trace [OF assms])
  show "set (drop (length (trace w)) (trace (sweep E now w))) \<subseteq>
          (\<Union>p\<in>set (filter (\<lambda>p. expired now (snd p)) (sessions w)). closeCallsOf (snd p))"
    by (rule sweep_new_calls(2) [OF assms])
  show "\<exists>n. \<forall>m\<ge>n. map_of (sessions (runSweeps E t0 m w)) sid' = None"
    by (rule runSweeps_eventually [OF assms])
next
  assume "map_of (sessions w) sid = Some s \<and> expired now s"
  then have a: "map_of (sessions w) sid = Some s" and b: "expired now s" by simp_all
  show "ContextClose (contextH s) \<in> set (drop (length (trace w)) (trace (sweep E now w)))"
    by (rule sweep_new_calls(3) [OF assms a b])
next
  assume "map_of (sessions w) sid = Some s \<and> now - t \<le> SESSION_TIMEOUT_MS"
  then have p: "map_of (sessions w) sid = Some s" and i: "now - t \<le> SESSION_TIMEOUT_MS"
    by simp_all
  let ?w = "snd (getSession t sid w)"
  have d: "distinct (map fst (sessions ?w))"
    by (simp add: getSession_present [OF p] AList.distinct_update [OF assms])
  have m: "map_of (sessions ?w) sid = Some (s\<lparr>lastActivity := t\<rparr>)"
    by (simp add: getSession_present [OF p] AList.update_conv')
  show "map_of (sessions (sweep E now ?w)) sid = Some (s\<lparr>lastActivity := t\<rparr>)"
    using i by (simp add: sweep_sessions [OF d] map_of_filter_distinct [OF d] m expired_def)
next
  assume p: "map_of (sessions w) sid = Some s"
  show "\<exists>n. \<forall>m\<ge>n. map_of (sessions (runSweeps E t0 m w)) sid = None \<and>
               ContextClose (contextH s) \<in>
                 set (drop (length (trace w)) (trace (runSweeps E t0 m w)))"
    by (rule runSweeps_eventually_closed [OF assms p])
qed

theorem idle_reaper_witness:
  "distinct (map fst (sessions exampleWorld)) \<and>
   sessions (sweep quietEnv 600000 exampleWorld) = sessions exampleWorld \<and>
   trace (sweep quietEnv 600000 exampleWorld) = [Launch 1] \<and>
   map_of (sessions exampleWorld) ''s1'' = Some exampleSession \<and>
   expired 600001 exampleSession \<and>
   sessions (sweep quietEnv 600001 exampleWorld) = [] \<and>
   trace (sweep quietEnv 600001 exampleWorld) = [Launch 1, ContextClose 2, BrowserClose 1] \<and>
   (900000::int) - 300000 \<le> SESSION_TIMEOUT_MS \<and>
   map_of (sessions (sweep quietEnv 900000 (snd (getSession 300000 ''s1'' exampleWorld)))) ''s1'' =
     Some (exampleSession\<lparr>lastActivity := 300000\<rparr>) \<and>
   (\<exists>n. \<forall>m\<ge>n. map_of (sessions (runSweeps quietEnv 0 m exampleWorld)) ''s1'' = None \<and>
      ContextClose 2 \<in> set (drop 1 (trace (runSweeps quietEnv 0 m exampleWorld))))"
proof -
  have d: "distinct (map fst (sessions exampleWorld))"
    by (simp add: exampleWorld_def)
  have h: "map_of (sessions exampleWorld) ''s1'' = Some exampleSession"
    by (simp add: exampleWorld_def)
  have t: "(900000::int) - 300000 \<le> SESSION_TIMEOUT_MS"
    by (simp add: SESSION_TIMEOUT_MS_def)
  have x: "expired 600001 exampleSession"
    by (simp add: expired_def exampleSession_def SESSION_TIMEOUT_MS_def)
  have a: "sessions (sweep quietEnv 600000 exampleWorld) = sessions exampleWorld \<and>
           trace (sweep quietEnv 600000 exampleWorld) = [Launch 1]"
    using idle_reaper [OF d, of quietEnv 600000]
    by (simp add: exampleWorld_def exampleSession_def expired_def SESSION_TIMEOUT_MS_def)
  have b: "sessions (sweep quietEnv 600001 exampleWorld) = [] \<and>
           trace (sweep quietEnv 600001 exampleWorld) = [Launch 1, ContextClose 2, BrowserClose 1]"
    using idle_reaper [OF d, of quietEnv 600001]
    by (simp add: exampleWorld_def exampleSession_def expired_def SESSION_TIMEOUT_MS_def
          teardownCalls_def quietEnv_def)
  have c: "contextH exampleSession = 2" "length (trace exampleWorld) = 1"
    by (simp_all add: exampleSession_def exampleWorld_def)
  show ?thesis
    using d h t x a b
      idle_reaper [OF d, of quietEnv 900000 "''s1''" exampleSession 300000 0 "''s1''"]
    by (simp add: c)
qed

subsection \<open>The states the store can reach\<close>

text \<open>
  The reaper's theorem asks for a store with one entry per id. Every state that the
  operations of the module can produce from the empty store is such a store; moreover
  every entry is stored under the id of its session, and only ids that
  \<open>createSession\<close> returned are in it.
\<close>

lemma update_entries:
  "set (AList.update k v al) \<subseteq> insert (k, v) (set al)"
  by (induction al) auto

lemma createSession_storeOk:
  assumes "storeOk ids w"
  shows "storeOk (case fst (createSession launch newId t1 t2 w) of Inl _ \<Rightarrow> ids | Inr _ \<Rightarrow> insert newId ids)
           (snd (createSession launch newId t1 t2 w))"
proof (cases "thrownBy launch")
  case (Some err)
  with assms createSession_fails [OF Some, of newId t1 t2 w] show ?thesis
    by (simp add: storeOk_def)
next
  case None
  then obtain b c p where h: "launch = Launched b c p" by (cases launch) auto
  let ?s = "\<lparr>id' = newId, browserH = b, contextH = c, pageH = p,
            state = initialized, createdAt = t1, lastActivity = t2\<rparr>"
  have "list_all (\<lambda>(sid, session). id' session = sid) (AList.update newId ?s (sessions w))"
    using assms update_entries [of newId ?s "sessions w"]
    by (auto simp: storeOk_def list_all_iff)
  with assms show ?thesis
    by (auto simp: h createSession_ok storeOk_def AList.distinct_update AList.dom_update)
qed

lemma getSession_storeOk:
  assumes "storeOk ids w"
  shows "storeOk ids (snd (getSession now sid w))"
proof (cases "map_of (sessions w) sid")
  case None
  with assms show ?thesis by (simp add: getSession_absent)
next
  case (Some s)
  then have "(sid, s) \<in> set (sessions w)" by (rule map_of_SomeD)
  with assms have i: "id' s = sid" by (auto simp: storeOk_def list_all_iff)
  have "list_all (\<lambda>(sid, session). id' session = sid)
          (AList.update sid (s\<lparr>lastActivity := now\<rparr>) (sessions w))"
    using assms i update_entries [of sid "s\<lparr>lastActivity := now\<rparr>" "sessions w"]
    by (auto simp: storeOk_def list_all_iff)
  moreover have "sid \<in> fst ` set (sessions w)"
    using \<open>(sid, s) \<in> set (sessions w)\<close> by force
  ultimately show ?thesis
    using assms
    by (auto simp: getSession_present [OF Some] storeOk_def AList.distinct_update AList.dom_update)
qed

lemma updateSessionState_storeOk:
  assumes "storeOk ids w"
  shows "storeOk ids (updateSessionState now sid st w)"
proof (cases "map_of (sessions w) sid")
  case None
  with assms show ?thesis by (simp add: updateSessionState_def)
next
  case (Some s)
  then have "(sid, s) \<in> set (sessions w)" by (rule map_of_SomeD)
  with assms have i: "id' s = sid" by (auto simp: storeOk_def list_all_iff)
  have "list_all (\<lambda>(sid, session). id' session = sid)
          (AList.update sid (s\<lparr>state := st, lastActivity := now\<rparr>) (sessions w))"
    using assms i update_entries [of sid "s\<lparr>state := st, lastActivity := now\<rparr>" "sessions w"]
    by (auto simp: storeOk_def list_all_iff)
  moreover have "sid \<in> fst ` set (sessions w)"
    using \<open>(sid, s) \<in> set (sessions w)\<close> by force
  ultimately show ?thesis
    using assms
    by (auto simp: updateSessionState_present [OF Some] storeOk_def AList.distinct_update
          AList.dom_update)
qed

lemma filter_storeOk:
  "storeOk ids w \<Longrightarrow> sessions w' = filter P (sessions w) \<Longrightarrow> storeOk ids w'"
  by (auto simp: storeOk_def distinct_map_filter list_all_iff)

lemma destroySession_storeOk:
  "storeOk ids w \<Longrightarrow> storeOk ids (snd (destroySession E sid w))"
  by (erule filter_storeOk) (simp add: destroySession_sessions AList.delete_eq)

lemma sweep_storeOk:
  assumes "storeOk ids w"
  shows "storeOk ids (sweep E now w)"
proof -
  from assms have "distinct (map fst (sessions w))" by (simp add: storeOk_def)
  then have "sessions (sweep E now w) = filter (\<lambda>p. \<not> expired now (snd p)) (sessions w)"
    by (rule sweep_sessions)
  with assms show ?thesis by (rule filter_storeOk)
qed

lemma reachable_storeOk: "reachable ids w \<Longrightarrow> storeOk ids w"
proof (induction rule: reachable.induct)
  case start
  show ?case by (simp add: storeOk_def emptyWorld_def)
next
  case (create_ok ids w launch newId t1 t2 session)
  with createSession_storeOk [OF create_ok.IH, where launch = launch and newId = newId
      and ?t1.0 = t1 and ?t2.0 = t2]
  show ?case by simp
next
  case (create_failed ids w launch newId t1 t2 err)
  with createSession_storeOk [OF create_failed.IH, where launch = launch and newId = newId
      and ?t1.0 = t1 and ?t2.0 = t2]
  show ?case by simp
next
  case (get ids w now sid)
  then show ?case by (simp add: getSession_storeOk)
next
  case (update ids w now sid st)
  then show ?case by (simp add: updateSessionState_storeOk)
next
  case (destroy ids w E sid)
  then show ?case by (simp add: destroySession_storeOk)
next
  case (reap ids w E now)
  then show ?case by (simp add: sweep_storeOk)
qed

text \<open>
  In every state the store can reach, \<open>getSession\<close> on an id that \<open>createSession\<close>
  never returned finds nothing and changes nothing.
\<close>

theorem never_created_is_absent:
  "reachable ids w \<Longrightarrow> sid \<notin> ids \<Longrightarrow> getSession now sid w = (None, w)"
proof -
  assume "reachable ids w" "sid \<notin> ids"
  then have "sid \<notin> fst ` set (sessions w)"
    using reachable_storeOk [of ids w] by (auto simp: storeOk_def)
  then have "map_of (sessions w) sid = None"
    by (simp add: map_of_eq_None_iff)
  then show ?thesis by (rule getSession_absent)
qed

theorem never_created_is_absent_witness:
  "reachable {''s1''} (snd (createSession (Launched 1 2 3) ''s1'' 0 0 emptyWorld)) \<and>
   ''s2'' \<notin> {''s1''} \<and>
   fst (getSession 5 ''s2'' (snd (createSession (Launched 1 2 3) ''s1'' 0 0 emptyWorld))) = None \<and>
   fst (getSession 5 ''s1'' (snd (createSession (Launched 1 2 3) ''s1'' 0 0 emptyWorld))) =
     Some (exampleSession\<lparr>lastActivity := 5\<rparr>)"
proof -
  have r: "reachable {''s1''} (snd (createSession (Launched 1 2 3) ''s1'' 0 0 emptyWorld))"
    using reachable.create_ok [OF reachable.start, of "Launched 1 2 3" "''s1''" 0 0]
    by (simp add: createSession_ok)
  have n: "''s2'' \<notin> {''s1''}" by simp
  have g: "fst (getSession 5 ''s1'' (snd (createSession (Launched 1 2 3) ''s1'' 0 0 emptyWorld))) =
     Some (exampleSession\<lparr>lastActivity := 5\<rparr>)"
    by (simp add: createSession_ok getSession_def emptyWorld_def exampleSession_def Let_def)
  show ?thesis
    using r n g never_created_is_absent [OF r n, of 5] by simp
qed

section \<open>Properties of the tool handlers\<close>

subsection \<open>Step failures\<close>

lemma stepCatch_part_001_destroys:
  "fst (getSession now sid (snd (stepCatch_part_001 E stp sid err w))) = None \<and>
   isError (fst (stepCatch_part_001 E stp sid err w))"
  by (simp add: stepCatch_part_001_def getSession_def destroySession_sessions
        AList.delete_conv failed_def)

lemma fill_car_details_part_001_failure:
  assumes "map_of (sessions w) sid = Some s" "fillCarDetails S (pageH s) input = Inl err"
  shows "isError (fst (fill_car_details_part_001 E S now sid input w)) \<and>
         fst (getSession now' sid (snd (fill_car_details_part_001 E S now sid input w))) = None"
  using assms
  by (simp add: fill_car_details_part_001_def getSession_present stepCatch_part_001_destroys)

lemma fill_driver_details_part_001_failure:
  assumes "map_of (sessions w) sid = Some s" "fillDriverDetails S (pageH s) input = Inl err"
  shows "isError (fst (fill_driver_details_part_001 E S now sid input w)) \<and>
         fst (getSession now' sid (snd (fill_driver_details_part_001 E S now sid input w))) = None"
  using assms
  by (simp add: fill_driver_details_part_001_def getSession_present stepCatch_part_001_destroys)

lemma get_quotes_part_001_failure:
  assumes "map_of (sessions w) sid = Some s" "extractQuoteResults S (pageH s) = Inl err"
  shows "isError (fst (get_quotes_part_001 E S now sid w)) \<and>
         fst (getSession now' sid (snd (get_quotes_part_001 E S now sid w))) = None"
  using assms
  by (simp add: get_quotes_part_001_def getSession_present stepCatch_part_001_destroys)

text \<open>
  C2. In the second copy of the server module the three lemmas above hold: a failure of
  the step destroys the session. In the first copy the \<open>catch\<close> blocks only report, and
  the claim fails: the session of a failed \<open>fill_car_details\<close>,
  \<open>fill_driver_details\<close> or \<open>get_quotes\<close> call is still there for the next
  \<open>getSession\<close>.
\<close>

theorem part_000_step_failure_keeps_session:
  "isError (fst (fill_car_details_part_000 quietEnv failingSite 1 ''s1'' exampleCarDetails exampleWorld)) \<and>
   fst (getSession 2 ''s1''
          (snd (fill_car_details_part_000 quietEnv failingSite 1 ''s1'' exampleCarDetails exampleWorld)))
     = Some (exampleSession\<lparr>lastActivity := 2\<rparr>) \<and>
   isError (fst (fill_driver_details_part_000 quietEnv failingSite 1 ''s1'' exampleDriverDetails exampleWorld)) \<and>
   fst (getSession 2 ''s1''
          (snd (fill_driver_details_part_000 quietEnv failingSite 1 ''s1'' exampleDriverDetails exampleWorld)))
     = Some (exampleSession\<lparr>lastActivity := 2\<rparr>) \<and>
   isError (fst (get_quotes_part_000 quietEnv failingSite 1 ''s1'' exampleWorld)) \<and>
   fst (getSession 2 ''s1'' (snd (get_quotes_part_000 quietEnv failingSite 1 ''s1'' exampleWorld)))
     = Some (exampleSession\<lparr>lastActivity := 2\<rparr>)"
  by (simp add: fill_car_details_part_000_def fill_driver_details_part_000_def
        get_quotes_part_000_def getSession_def stepCatch_part_000_def failed_def
        failingSite_def exampleWorld_def exampleSession_def Let_def)

text \<open>
  In the second copy of the server module, a step that fails on a session of the store
  ends with the error reported and the session gone: the next \<open>getSession\<close> on its id
  returns nothing.
\<close>

theorem part_001_step_failure_destroys_session:
  assumes "map_of (sessions w) sid = Some s"
  shows "(fillCarDetails S (pageH s) carInput = Inl err \<longrightarrow>
            isError (fst (fill_car_details_part_001 E S now sid carInput w)) \<and>
            fst (getSession now' sid (snd (fill_car_details_part_001 E S now sid carInput w))) = None) \<and>
         (fillDriverDetails S (pageH s) driverInput = Inl err \<longrightarrow>
            isError (fst (fill_driver_details_part_001 E S now sid driverInput w)) \<and>
            fst (getSession now' sid (snd (fill_driver_details_part_001 E S now sid driverInput w))) = None) \<and>
         (extractQuoteResults S (pageH s) = Inl err \<longrightarrow>
            isError (fst (get_quotes_part_001 E S now sid w)) \<and>
            fst (getSession now' sid (snd (get_quotes_part_001 E S now sid w))) = None)"
  using assms fill_car_details_part_001_failure [of w sid s S carInput err E now now']
    fill_driver_details_part_001_failure [of w sid s S driverInput err E now now']
    get_quotes_part_001_failure [of w sid s S err E now now']
  by blast

theorem part_001_step_failure_destroys_session_witness:
  "map_of (sessions exampleWorld) ''s1'' = Some exampleSession \<and>
   fillCarDetails failingSite (pageH exampleSession) exampleCarDetails =
     Inl (Error ''Failed to fill address via autocomplete'') \<and>
   isError (fst (fill_car_details_part_001 quietEnv failingSite 1 ''s1'' exampleCarDetails exampleWorld)) \<and>
   fst (getSession 2 ''s1''
         (snd (fill_car_details_part_001 quietEnv failingSite 1 ''s1'' exampleCarDetails exampleWorld)))
     = None"
proof -
  have h: "map_of (sessions exampleWorld) ''s1'' = Some exampleSession"
    by (simp add: exampleWorld_def)
  have f: "fillCarDetails failingSite (pageH exampleSession) exampleCarDetails =
             Inl (Error ''Failed to fill address via autocomplete'')"
    by (simp add: failingSite_def)
  show ?thesis
    using h f part_001_step_failure_destroys_session
                [OF h, of failingSite exampleCarDetails
                   "Error ''Failed to fill address via autocomplete''" quietEnv 1 2]
    by simp
qed

subsection \<open>\<open>start_quote\<close> without a way to find the car\<close>

text \<open>
  C3, as the claim states it, fails in both copies: called with none of the six
  arguments, \<open>start_quote\<close> has created a session (\<open>createSession\<close> registers it),
  launched a browser and closed it again by the time it returns the error.
\<close>

theorem start_quote_launches_browser:
  "sessions (snd (createSession (Launched 1 2 3) ''s1'' 0 0 emptyWorld)) = [(''s1'', exampleSession)] \<and>
   start_quote_part_001 quietEnv failingSite (Launched 1 2 3) ''s1'' 0 0
       None None None None None None emptyWorld =
     (failed ProvideRegoOrVehicle,
      \<lparr>sessions = [], trace = [Launch 1, ContextClose 2, BrowserClose 1]\<rparr>) \<and>
   start_quote_part_000 quietEnv failingSite (Launched 1 2 3) ''s1'' 0 0
       None None None None None None emptyWorld =
     (failed ProvideRegoOrVehicle,
      \<lparr>sessions = [], trace = [Launch 1, ContextClose 2, BrowserClose 1]\<rparr>)"
  by (simp add: start_quote_part_001_def start_quote_part_000_def createSession_def
        destroySession_def closeContextAndBrowser_def Let_def
        emptyWorld_def exampleSession_def quietEnv_def AList.delete_eq)

lemma delete_update_fresh:
  "map_of al k = None \<Longrightarrow> AList.delete k (AList.update k v al) = al"
  by (induction al) (auto simp: AList.delete_eq split: if_splits)

lemma destroySession_created:
  assumes "map_of (sessions w) newId = None"
  shows "destroySession E newId
           (w\<lparr>trace := trace w @ [Launch b],
              sessions := AList.update newId
                \<lparr>id' = newId, browserH = b, contextH = c, pageH = p,
                 state = initialized, createdAt = t1, lastActivity = t2\<rparr> (sessions w)\<rparr>) =
         (Inr (), w\<lparr>trace := trace w @ Launch b # teardownCalls E (trace w @ [Launch b]) b c\<rparr>)"
  using assms
  by (simp add: destroySession_def closeContextAndBrowser_def Let_def AList.update_conv'
        delete_update_fresh teardownCalls_def)

text \<open>
  C3, amended. Called with neither (rego and state) nor (year, make, model and
  bodyType), and \<open>uuid()\<close> returning an id that is not in the store, \<open>start_quote\<close>
  (in both copies) first calls \<open>createSession\<close>. When that succeeds, one browser has
  been launched and the session registered; the handler destroys the session again
  (\<open>context.close()\<close>, then \<open>browser.close()\<close> unless the first threw) and returns the
  error \<open>ProvideRegoOrVehicle\<close>: the store is as before the call, the trace has the
  launch and the teardown. When \<open>createSession\<close> fails, the handler returns an error
  and no session is registered: the store is as before the call. When it is
  \<open>chromium.launch\<close> that threw, no browser was launched either and the whole state is
  unchanged.
\<close>

theorem start_quote_without_lookup:
  assumes "\<not> (truthy rego \<and> truthy st)"
    and "\<not> (truthy carYear \<and> truthy carMake \<and> truthy carModel \<and> truthy bodyType)"
    and "map_of (sessions w) newId = None"
  shows "start_quote_part_001 E S (Launched b c p) newId t1 t2 rego st carMake carModel carYear bodyType w =
           (failed ProvideRegoOrVehicle,
            w\<lparr>trace := trace w @ Launch b # teardownCalls E (trace w @ [Launch b]) b c\<rparr>) \<and>
         start_quote_part_000 E S (Launched b c p) newId t1 t2 rego st carMake carModel carYear bodyType w =
           (failed ProvideRegoOrVehicle,
            w\<lparr>trace := trace w @ Launch b # teardownCalls E (trace w @ [Launch b]) b c\<rparr>) \<and>
         (thrownBy outcome = Some err \<longrightarrow>
            isError (fst (start_quote_part_001 E S outcome newId t1 t2 rego st carMake carModel carYear bodyType w)) \<and>
            sessions (snd (start_quote_part_001 E S outcome newId t1 t2 rego st carMake carModel carYear bodyType w))
              = sessions w \<and>
            isError (fst (start_quote_part_000 E S outcome newId t1 t2 rego st carMake carModel carYear bodyType w)) \<and>
            sessions (snd (start_quote_part_000 E S outcome newId t1 t2 rego st carMake carModel carYear bodyType w))
              = sessions w) \<and>
         snd (start_quote_part_001 E S (LaunchThrows err) newId t1 t2 rego st carMake carModel carYear bodyType w) = w \<and>
         snd (start_quote_part_000 E S (LaunchThrows err) newId t1 t2 rego st carMake carModel carYear bodyType w) = w"
proof (intro conjI impI)
  have r: "(truthy rego \<and> truthy st) = False"
    using assms(1) by blast
  have m: "(truthy carYear \<and> truthy carMake \<and> truthy carModel \<and> truthy bodyType) = False"
    using assms(2) by blast
  show "start_quote_part_001 E S (Launched b c p) newId t1 t2 rego st carMake carModel carYear bodyType w =
           (failed ProvideRegoOrVehicle,
            w\<lparr>trace := trace w @ Launch b # teardownCalls E (trace w @ [Launch b]) b c\<rparr>)"
    by (simp add: start_quote_part_001_def createSession_ok destroySession_created [OF assms(3)] r m)
  show "start_quote_part_000 E S (Launched b c p) newId t1 t2 rego st carMake carModel carYear bodyType w =
           (failed ProvideRegoOrVehicle,
            w\<lparr>trace := trace w @ Launch b # teardownCalls E (trace w @ [Launch b]) b c\<rparr>)"
    by (simp add: start_quote_part_000_def createSession_ok destroySession_created [OF assms(3)] r m)
  show "snd (start_quote_part_001 E S (LaunchThrows err) newId t1 t2 rego st carMake carModel carYear bodyType w) = w"
    by (simp add: start_quote_part_001_def createSession_launch_throws startQuoteCatch_part_001_def
          Let_def)
  show "snd (start_quote_part_000 E S (LaunchThrows err) newId t1 t2 rego st carMake carModel carYear bodyType w) = w"
    by (simp add: start_quote_part_000_def createSession_launch_throws startQuoteCatch_part_000_def)
next
  assume t: "thrownBy outcome = Some err"
  obtain w1 where c: "createSession outcome newId t1 t2 w = (Inl err, w1)" "sessions w1 = sessions w"
    using createSession_fails [OF t, of newId t1 t2 w]
    by (cases "createSession outcome newId t1 t2 w") auto
  show "isError (fst (start_quote_part_001 E S outcome newId t1 t2 rego st carMake carModel carYear bodyType w))"
    by (simp add: start_quote_part_001_def c startQuoteCatch_part_001_def failed_def Let_def)
  show "sessions (snd (start_quote_part_001 E S outcome newId t1 t2 rego st carMake carModel carYear bodyType w))
          = sessions w"
    by (simp add: start_quote_part_001_def c startQuoteCatch_part_001_def Let_def)
  show "isError (fst (start_quote_part_000 E S outcome newId t1 t2 rego st carMake carModel carYear bodyType w))"
    by (simp add: start_quote_part_000_def c startQuoteCatch_part_000_def failed_def)
  show "sessions (snd (start_quote_part_000 E S outcome newId t1 t2 rego st carMake carModel carYear bodyType w))
          = sessions w"
    by (simp add: start_quote_part_000_def c startQuoteCatch_part_000_def)
qed

theorem start_quote_without_lookup_witness:
  "\<not> (truthy (Some ''ABC123'') \<and> truthy None) \<and>
   \<not> (truthy None \<and> truthy (Some ''Toyota'') \<and> truthy (Some ''Corolla'') \<and> truthy (Some [])) \<and>
   map_of (sessions exampleWorld) ''s2'' = None \<and>
   start_quote_part_001 brokenEnv failingSite (Launched 4 5 6) ''s2'' 10 11
       (Some ''ABC123'') None (Some ''Toyota'') (Some ''Corolla'') None (Some []) exampleWorld =
     (failed ProvideRegoOrVehicle,
      \<lparr>sessions = [(''s1'', exampleSession)], trace = [Launch 1, Launch 4, ContextClose 5]\<rparr>) \<and>
   thrownBy (NewContextThrows 4 (Error ''Target closed'')) = Some (Error ''Target closed'') \<and>
   isError (fst (start_quote_part_001 brokenEnv failingSite (NewContextThrows 4 (Error ''Target closed''))
                   ''s2'' 10 11 (Some ''ABC123'') None (Some ''Toyota'') (Some ''Corolla'') None (Some [])
                   exampleWorld)) \<and>
   sessions (snd (start_quote_part_001 brokenEnv failingSite (NewContextThrows 4 (Error ''Target closed''))
                   ''s2'' 10 11 (Some ''ABC123'') None (Some ''Toyota'') (Some ''Corolla'') None (Some [])
                   exampleWorld)) = [(''s1'', exampleSession)]"
proof -
  have a: "\<not> (truthy (Some ''ABC123'') \<and> truthy None)" by simp
  have b: "\<not> (truthy None \<and> truthy (Some ''Toyota'') \<and> truthy (Some ''Corolla'') \<and> truthy (Some []))"
    by simp
  have c: "map_of (sessions exampleWorld) ''s2'' = None"
    by (simp add: exampleWorld_def)
  have t: "thrownBy (NewContextThrows 4 (Error ''Target closed'')) = Some (Error ''Target closed'')"
    by simp
  show ?thesis
    using a b c t
      start_quote_without_lookup [OF a b c, of brokenEnv failingSite 4 5 6 10 11
        "NewContextThrows 4 (Error ''Target closed'')" "Error ''Target closed''"]
    by (simp add: teardownCalls_def brokenEnv_def exampleWorld_def)
qed

section \<open>Properties of the retry loop\<close>

declare waitLoop.simps [simp del] clickLoop.simps [simp del]











section \<open>Properties of the matcher\<close>

text \<open>
  The backtracking matcher finds a match exactly when the pattern occurs: what it
  returns is a split of a prefix of the string into pieces the atoms consume, and it
  fails only when no such split exists.
\<close>

lemma bt_sound:
  "bt p s = Some parts \<Longrightarrow> list_all2 consumes p parts \<and> prefix (concat parts) s"
proof (induction p s arbitrary: parts rule: bt.induct)
  case (1 s)
  then show ?case by simp
next
  case (2 c as)
  then show ?case by simp
next
  case (3 c as x xs)
  then show ?case by (auto split: if_splits)
next
  case (4 c as)
  then show ?case by auto
next
  case (5 c as x xs)
  then show ?case by (auto split: if_splits option.splits)
next
  case (6 k as)
  then show ?case by auto
next
  case (7 k as x xs)
  show ?case
  proof (cases "inClass k x")
    case False
    with 7 show ?thesis by auto
  next
    case True
    show ?thesis
    proof (cases "bt (Star k # as) xs")
      case None
      with True 7 show ?thesis by auto
    next
      case (Some r)
      with True "7.prems" have parts: "parts = consHead x r" by simp
      from "7.IH"(1) [OF True Some] obtain r0 rs where
        r: "r = r0 # rs" "list_all (inClass k) r0" "list_all2 consumes as rs" "prefix (concat r) xs"
        by (auto simp: list_all2_Cons1)
      with True parts show ?thesis by simp
    qed
  qed
next
  case (8 k as)
  then show ?case by simp
next
  case (9 k as x xs)
  show ?case
  proof (cases "inClass k x")
    case False
    with 9 show ?thesis by simp
  next
    case True
    with "9.prems" obtain r where r: "bt (Star k # as) xs = Some r" "parts = consHead x r"
      by auto
    from "9.IH" [OF True r(1)] obtain r0 rs where
      "r = r0 # rs" "list_all (inClass k) r0" "list_all2 consumes as rs" "prefix (concat r) xs"
      by (auto simp: list_all2_Cons1)
    with True r show ?thesis by simp
  qed
qed

lemma bt_star_complete:
  assumes "bt as t \<noteq> None"
  shows "list_all (inClass k) r \<Longrightarrow> bt (Star k # as) (r @ t) \<noteq> None"
proof (induction r)
  case Nil
  from assms show ?case
    by (cases t) (auto split: option.splits)
next
  case (Cons x r)
  then show ?case by (auto split: option.splits)
qed

lemma bt_opt_complete:
  assumes "bt as t \<noteq> None"
  shows "bt (Opt c # as) t \<noteq> None" "bt (Opt c # as) (c # t) \<noteq> None"
  using assms by (cases t; auto split: option.splits)+

lemma bt_complete:
  "list_all2 consumes p parts \<Longrightarrow> bt p (concat parts @ s) \<noteq> None"
proof (induction p arbitrary: parts s)
  case Nil
  then show ?case by simp
next
  case (Cons a as)
  then obtain r rs where parts: "parts = r # rs" "consumes a r" "list_all2 consumes as rs"
    by (auto simp: list_all2_Cons1)
  define t where "t = concat rs @ s"
  have ih: "bt as t \<noteq> None"
    unfolding t_def using Cons.IH [OF parts(3)] by simp
  have goal: "concat parts @ s = r @ t"
    by (simp add: parts t_def)
  show ?case
    unfolding goal
  proof (cases a)
    case (Lit c)
    with parts ih show "bt (a # as) (r @ t) \<noteq> None" by auto
  next
    case (Opt c)
    with parts bt_opt_complete [OF ih, of c] show "bt (a # as) (r @ t) \<noteq> None" by auto
  next
    case (Star k)
    with parts bt_star_complete [OF ih, of k r] show "bt (a # as) (r @ t) \<noteq> None" by simp
  next
    case (Plus k)
    with parts obtain x r' where r: "r = x # r'" "inClass k x" "list_all (inClass k) r'"
      by (cases r) auto
    with Plus bt_star_complete [OF ih, of k r'] show "bt (a # as) (r @ t) \<noteq> None" by auto
  qed
qed

lemma search_iff:
  "search p s \<noteq> None \<longleftrightarrow> (\<exists>a b. s = a @ b \<and> bt p b \<noteq> None)"
proof (induction s)
  case Nil
  then show ?case by simp
next
  case (Cons x xs)
  show ?case
  proof (cases "bt p (x # xs)")
    case (Some r)
    then have "\<exists>a b. x # xs = a @ b \<and> bt p b \<noteq> None"
      by (intro exI [of _ "[]"] exI [of _ "x # xs"]) simp
    with Some show ?thesis by simp
  next
    case None
    have "(\<exists>a b. x # xs = a @ b \<and> bt p b \<noteq> None) \<longleftrightarrow> (\<exists>a b. xs = a @ b \<and> bt p b \<noteq> None)"
    proof
      assume "\<exists>a b. x # xs = a @ b \<and> bt p b \<noteq> None"
      then obtain a b where ab: "x # xs = a @ b" "bt p b \<noteq> None" by blast
      with None obtain a' where "a = x # a'" by (cases a) auto
      with ab show "\<exists>a b. xs = a @ b \<and> bt p b \<noteq> None" by auto
    next
      assume "\<exists>a b. xs = a @ b \<and> bt p b \<noteq> None"
      then obtain a b where "xs = a @ b" "bt p b \<noteq> None" by blast
      then have "x # xs = (x # a) @ b \<and> bt p b \<noteq> None" by simp
      then show "\<exists>a b. x # xs = a @ b \<and> bt p b \<noteq> None" by blast
    qed
    with None Cons.IH show ?thesis by simp
  qed
qed

lemma search_occurs: "search p s \<noteq> None \<longleftrightarrow> occurs p s"
proof
  assume "search p s \<noteq> None"
  then obtain a b parts where "s = a @ b" "bt p b = Some parts"
    unfolding search_iff by auto
  with bt_sound [of p b parts] show "occurs p s"
    unfolding occurs_def by (auto simp: prefix_def)
next
  assume "occurs p s"
  then obtain a parts b where "s = a @ concat parts @ b" "list_all2 consumes p parts"
    unfolding occurs_def by blast
  with bt_complete [of p parts b] show "search p s \<noteq> None"
    unfolding search_iff by blast
qed

text \<open>
  The matcher and the meaning of the patterns agree: the search returns a match exactly
  when the pattern occurs in the string.
\<close>

theorem matcher_finds_what_occurs: "(search p s \<noteq> None) = occurs p s"
  by (rule search_occurs)

subsection \<open>The patterns and the words of the specification\<close>

lemma match1_None_iff: "match1 s re \<noteq> None \<longleftrightarrow> occurs (pattern re) s"
  by (simp add: match1_def pattern_def search_occurs [symmetric])

lemma amount_parts:
  "list_all2 consumes amount parts \<longleftrightarrow>
     (\<exists>n d f. parts = [n, d, f] \<and> n \<noteq> [] \<and> list_all (inClass DigitOrComma) n \<and>
              (d = [] \<or> d = ''.'') \<and> list_all (inClass Digit) f)"
  by (auto simp: amount_def list_all2_Cons1)

lemma lits_parts:
  "list_all2 consumes (lits s) parts \<longleftrightarrow> parts = map (\<lambda>c. [c]) s"
  unfolding lits_def
  by (induction s arbitrary: parts) (auto simp: list_all2_Cons1)

lemma concat_singletons: "concat (map (\<lambda>c. [c]) s) = s"
  by (induction s) auto

lemma occurs_yearly: "occurs (pattern yearlyRe) chunk \<longleftrightarrow> yearlyPriceIn chunk"
proof
  assume "occurs (pattern yearlyRe) chunk"
  then obtain a parts b where c: "chunk = a @ concat parts @ b"
    and p: "list_all2 consumes (lits ''$'' @ amount @ Star Space # lits ''/Yearly'') parts"
    unfolding occurs_def pattern_def yearlyRe_def by auto
  from p obtain p1 p2 p3 where parts: "parts = p1 @ p2 @ p3"
    and p1: "list_all2 consumes (lits ''$'') p1"
    and p2: "list_all2 consumes amount p2"
    and p3: "list_all2 consumes (Star Space # lits ''/Yearly'') p3"
    by (auto simp: list_all2_append1)
  from p3 obtain ws where p3': "p3 = ws # map (\<lambda>c. [c]) ''/Yearly''" "list_all (inClass Space) ws"
    by (auto simp: list_all2_Cons1 lits_parts)
  from p2 obtain n d f where "p2 = [n, d, f]" "n \<noteq> []" "list_all (inClass DigitOrComma) n"
      "d = [] \<or> d = ''.''" "list_all (inClass Digit) f"
    unfolding amount_parts by blast
  then have "amountText (concat p2)"
    unfolding amountText_def by (intro exI [of _ n] exI [of _ d] exI [of _ f]) simp
  moreover have "chunk = a @ ''$'' @ concat p2 @ ws @ ''/Yearly'' @ b"
    using c p1 p3' parts by (simp add: lits_parts)
  ultimately show "yearlyPriceIn chunk"
    unfolding yearlyPriceIn_def using p3'(2) by blast
next
  assume "yearlyPriceIn chunk"
  then obtain a v ws b where c: "chunk = a @ ''$'' @ v @ ws @ ''/Yearly'' @ b"
    and v: "amountText v" and ws: "list_all (inClass Space) ws"
    unfolding yearlyPriceIn_def by blast
  from v obtain p2 where p2: "list_all2 consumes amount p2" "concat p2 = v"
    unfolding amountText_def amount_parts by fastforce
  let ?parts = "map (\<lambda>c. [c]) ''$'' @ p2 @ ws # map (\<lambda>c. [c]) ''/Yearly''"
  have "list_all2 consumes (pattern yearlyRe) ?parts"
    unfolding pattern_def yearlyRe_def using p2(1) ws
    by (auto simp: lits_parts list_all2_appendI simp del: list.map intro!: list_all2_appendI)
  moreover have "chunk = a @ concat ?parts @ b"
    using c p2(2) by simp
  ultimately show "occurs (pattern yearlyRe) chunk"
    unfolding occurs_def by blast
qed

lemma indexOf_iff: "indexOf text pat = Some i \<longleftrightarrow> firstOccurrence text pat i"
proof (induction "text" arbitrary: i)
  case Nil
  then show ?case by (auto simp: firstOccurrence_def)
next
  case (Cons c cs)
  show ?case
  proof (cases "prefix pat (c # cs)")
    case True
    have "firstOccurrence (c # cs) pat i \<longleftrightarrow> i = 0"
    proof
      assume f: "firstOccurrence (c # cs) pat i"
      show "i = 0"
      proof (rule ccontr)
        assume "i \<noteq> 0"
        with f have "\<not> prefix pat (drop 0 (c # cs))"
          unfolding firstOccurrence_def by blast
        with True show False by simp
      qed
    next
      assume "i = 0"
      with True show "firstOccurrence (c # cs) pat i" by (simp add: firstOccurrence_def)
    qed
    with True show ?thesis by auto
  next
    case False
    have "firstOccurrence (c # cs) pat i \<longleftrightarrow> (\<exists>k. i = Suc k \<and> firstOccurrence cs pat k)"
    proof
      assume f: "firstOccurrence (c # cs) pat i"
      with False obtain k where k: "i = Suc k"
        by (cases i) (auto simp: firstOccurrence_def)
      have "\<not> prefix pat (drop j cs)" if "j < k" for j
        using f that unfolding firstOccurrence_def k by (auto dest: spec [of _ "Suc j"])
      with f k show "\<exists>k. i = Suc k \<and> firstOccurrence cs pat k"
        by (auto simp: firstOccurrence_def)
    next
      assume "\<exists>k. i = Suc k \<and> firstOccurrence cs pat k"
      then obtain k where k: "i = Suc k" "firstOccurrence cs pat k" by blast
      have "\<not> prefix pat (drop j (c # cs))" if "j < i" for j
        using that k False by (cases j) (auto simp: firstOccurrence_def)
      with k show "firstOccurrence (c # cs) pat i"
        by (auto simp: firstOccurrence_def)
    qed
    with False Cons.IH show ?thesis by auto
  qed
qed

lemma substring_window: "substring text idx (idx + 500) = take 500 (drop idx text)"
  by (simp add: substring_def)

lemma yearlyInWindow_spec: "yearlyInWindow text productName \<longleftrightarrow> quotedBySpec text productName"
proof (cases "indexOf text productName")
  case None
  then have "\<not> firstOccurrence text productName i" for i
    using indexOf_iff [of "text" productName i] by simp
  with None show ?thesis by (simp add: yearlyInWindow_def quotedBySpec_def)
next
  case (Some idx)
  then have "firstOccurrence text productName i \<longleftrightarrow> i = idx" for i
    using indexOf_iff [of "text" productName i] by auto
  with Some show ?thesis
    by (simp add: yearlyInWindow_def quotedBySpec_def match1_None_iff occurs_yearly
          substring_window del: not_None_eq)
qed

section \<open>Properties of the extraction\<close>

lemma extractLoop_names:
  "map name (extractLoop text productNames products) =
     map name products @ filter (yearlyInWindow text) productNames"
  by (induction productNames arbitrary: products)
     (auto simp: yearlyInWindow_def Let_def split: option.splits)

text \<open>
  C5. The names of the quotes \<open>extractProductsFromText\<close> returns are exactly the
  requested product names, in the order of the request, whose name occurs in the text
  and for which a yearly price occurs in the 500 characters starting at the first
  occurrence of the name. A name that is absent, or whose window holds no yearly price,
  contributes no entry at all.
\<close>

theorem extract_iff_yearly_price:
  "map name (extractProductsFromText text productNames) =
     filter (quotedBySpec text) productNames"
  by (simp add: extractProductsFromText_def extractLoop_names yearlyInWindow_spec [abs_def])

theorem extract_iff_yearly_price_witness:
  "filter (quotedBySpec examplePageText)
     [''Comprehensive'', ''Complete Care'', ''Third Party Fire & Theft''] = [''Comprehensive'']"
proof -
  have "map name (extractProductsFromText examplePageText
          [''Comprehensive'', ''Complete Care'', ''Third Party Fire & Theft'']) = [''Comprehensive'']"
    by code_simp
  then show ?thesis
    by (simp only: extract_iff_yearly_price)
qed

lemma extractLoop_map_filter:
  "extractLoop text productNames products =
     products @ List.map_filter (quoteFor text) productNames"
  by (induction productNames arbitrary: products)
     (auto simp: List.map_filter_simps quoteFor_def quoteFrom_def window_def Let_def
           split: option.splits)

lemma extract_map_filter:
  "extractProductsFromText text productNames = List.map_filter (quoteFor text) productNames"
  by (simp add: extractProductsFromText_def extractLoop_map_filter)

lemma quoteFor_in_extract:
  "productName \<in> set productNames \<Longrightarrow> quoteFor text productName = Some q \<Longrightarrow>
   q \<in> set (extractProductsFromText text productNames)"
  by (force simp: extract_map_filter List.map_filter_def)

lemma window_quoteFor:
  "window text1 n = window text2 n \<Longrightarrow> quoteFor text1 n = quoteFor text2 n"
  by (simp add: quoteFor_def)

lemma map_filter_agree:
  "(\<And>x. x \<in> set xs \<Longrightarrow> f x = g x) \<Longrightarrow> List.map_filter f xs = List.map_filter g xs"
  by (induction xs) (auto simp: List.map_filter_simps split: option.splits)

text \<open>
  Only the windows count: two texts with the same window for every requested name give
  the same quotes. And the loop carries nothing from one name to the next: started with
  any \<open>products\<close>, it appends to them what it returns when started with none.
\<close>

lemma extraction_reads_only_the_windows:
  "((\<forall>n\<in>set productNames. window text1 n = window text2 n) \<longrightarrow>
      extractProductsFromText text1 productNames = extractProductsFromText text2 productNames) \<and>
   extractLoop text productNames products = products @ extractProductsFromText text productNames"
proof (intro conjI impI)
  assume "\<forall>n\<in>set productNames. window text1 n = window text2 n"
  then have "List.map_filter (quoteFor text1) productNames =
             List.map_filter (quoteFor text2) productNames"
    by (intro map_filter_agree window_quoteFor) blast
  then show "extractProductsFromText text1 productNames = extractProductsFromText text2 productNames"
    by (simp add: extract_map_filter)
next
  show "extractLoop text productNames products = products @ extractProductsFromText text productNames"
    by (simp add: extractProductsFromText_def extractLoop_map_filter)
qed

subsection \<open>The extraction on the heap\<close>

declare forOf.simps [simp del]

lemma forOf_step:
  assumes "n < length (stringArrays h)" "i < length (stringArrays h ! n)"
  shows "forOf text n p i h =
           forOf text n p (i + 1)
             (case quoteFor text (stringArrays h ! n ! i) of None \<Rightarrow> h | Some q \<Rightarrow> push p q h)"
  using assms
  by (subst forOf.simps)
     (simp add: quoteFor_def quoteFrom_def window_def Let_def split: option.splits)

lemma forOf_done:
  "\<not> (n < length (stringArrays h) \<and> i < length (stringArrays h ! n)) \<Longrightarrow> forOf text n p i h = h"
  by (subst forOf.simps) (simp only: if_False)

lemma forOf_appends:
  assumes "n < length (stringArrays h)" "p < length (quoteArrays h)"
  shows "forOf text n p i h =
           h\<lparr>quoteArrays := (quoteArrays h)
                [p := quoteArrays h ! p @ List.map_filter (quoteFor text) (drop i (stringArrays h ! n))]\<rparr>"
  using assms
proof (induction "length (stringArrays h ! n) - i" arbitrary: i h)
  case 0
  then have "forOf text n p i h = h" by (intro forOf_done) simp
  moreover from 0 have "drop i (stringArrays h ! n) = []" by simp
  ultimately show ?case by (simp add: List.map_filter_simps)
next
  case (Suc k)
  then have i: "i < length (stringArrays h ! n)" by simp
  let ?names = "stringArrays h ! n"
  let ?h = "case quoteFor text (?names ! i) of None \<Rightarrow> h | Some q \<Rightarrow> push p q h"
  have s: "stringArrays ?h = stringArrays h"
    by (simp add: push_def split: option.splits)
  have l: "length (quoteArrays ?h) = length (quoteArrays h)"
    by (simp add: push_def split: option.splits)
  have ih: "forOf text n p (i + 1) ?h =
              ?h\<lparr>quoteArrays := (quoteArrays ?h)
                [p := quoteArrays ?h ! p @ List.map_filter (quoteFor text) (drop (i + 1) ?names)]\<rparr>"
    using Suc.hyps(1) [of ?h "i + 1"] Suc.hyps(2) Suc.prems s l by simp
  have d: "drop i ?names = ?names ! i # drop (i + 1) ?names"
    using i by (simp add: Cons_nth_drop_Suc)
  show ?case
    unfolding forOf_step [OF Suc.prems(1) i] ih d
    using Suc.prems(2)
    by (simp add: List.map_filter_simps push_def split: option.splits)
qed

lemma extractOnHeap_result:
  assumes "n < length (stringArrays h)"
  shows "extractProductsFromTextOnHeap text n h =
           (length (quoteArrays h),
            h\<lparr>quoteArrays := quoteArrays h @ [extractProductsFromText text (stringArrays h ! n)]\<rparr>)"
  using assms
  by (simp add: extractProductsFromTextOnHeap_def newQuoteArray_def forOf_appends
        extract_map_filter)

text \<open>
  C7. Run in any two heaps, on equal texts and on references behind which the same list
  of product names is stored, \<open>extractProductsFromText\<close> returns references to equal
  sequences of quotes: the result is decided by the text and the names, whatever else
  the heaps hold and wherever the names are stored. The run has no effect on anything
  that was there: every array of strings and every array of quotes of the heap is after
  the run what it was before, and the one array that is new is the array returned. Its
  content is what the function of the text and the names above computes.
\<close>

theorem extraction_is_pure:
  assumes "productNames1 < length (stringArrays h1)"
    and "productNames2 < length (stringArrays h2)"
    and "text1 = text2"
    and "stringArrays h1 ! productNames1 = stringArrays h2 ! productNames2"
  shows "quoteArrays (snd (extractProductsFromTextOnHeap text1 productNames1 h1))
           ! fst (extractProductsFromTextOnHeap text1 productNames1 h1) =
         quoteArrays (snd (extractProductsFromTextOnHeap text2 productNames2 h2))
           ! fst (extractProductsFromTextOnHeap text2 productNames2 h2) \<and>
         stringArrays (snd (extractProductsFromTextOnHeap text1 productNames1 h1)) = stringArrays h1 \<and>
         take (length (quoteArrays h1))
           (quoteArrays (snd (extractProductsFromTextOnHeap text1 productNames1 h1))) = quoteArrays h1 \<and>
         fst (extractProductsFromTextOnHeap text1 productNames1 h1) = length (quoteArrays h1) \<and>
         length (quoteArrays (snd (extractProductsFromTextOnHeap text1 productNames1 h1))) =
           Suc (length (quoteArrays h1)) \<and>
         quoteArrays (snd (extractProductsFromTextOnHeap text1 productNames1 h1))
           ! fst (extractProductsFromTextOnHeap text1 productNames1 h1) =
           extractProductsFromText text1 (stringArrays h1 ! productNames1)"
  using assms(3,4)
  by (simp add: extractOnHeap_result [OF assms(1)] extractOnHeap_result [OF assms(2)])

theorem extraction_is_pure_witness:
  "0 < length (stringArrays heapA) \<and>
   1 < length (stringArrays heapB) \<and>
   stringArrays heapA ! 0 = stringArrays heapB ! 1 \<and>
   heapA \<noteq> heapB \<and>
   extractProductsFromTextOnHeap examplePageText 0 heapA =
     (0, heapA\<lparr>quoteArrays :=
           [[\<lparr>name = ''Comprehensive'', yearlyPrice = ''$1,254.36'', monthlyPrice = ''$110.45'',
              totalOver12Months = ''$1,325.40'', yearlySaving = Some ''$71.04'',
              features = []\<rparr>]]\<rparr>) \<and>
   quoteArrays (snd (extractProductsFromTextOnHeap examplePageText 1 heapB))
     ! fst (extractProductsFromTextOnHeap examplePageText 1 heapB) =
     [\<lparr>name = ''Comprehensive'', yearlyPrice = ''$1,254.36'', monthlyPrice = ''$110.45'',
       totalOver12Months = ''$1,325.40'', yearlySaving = Some ''$71.04'', features = []\<rparr>] \<and>
   stringArrays (snd (extractProductsFromTextOnHeap examplePageText 1 heapB)) = stringArrays heapB \<and>
   take 1 (quoteArrays (snd (extractProductsFromTextOnHeap examplePageText 1 heapB))) =
     quoteArrays heapB"
proof -
  have a: "0 < length (stringArrays heapA)" by (simp add: heapA_def)
  have b: "1 < length (stringArrays heapB)" by (simp add: heapB_def)
  have n: "stringArrays heapA ! 0 = stringArrays heapB ! 1"
    by (simp add: heapA_def heapB_def)
  have d: "heapA \<noteq> heapB" by (simp add: heapA_def heapB_def)
  have r: "extractProductsFromTextOnHeap examplePageText 0 heapA =
     (0, heapA\<lparr>quoteArrays :=
           [[\<lparr>name = ''Comprehensive'', yearlyPrice = ''$1,254.36'', monthlyPrice = ''$110.45'',
              totalOver12Months = ''$1,325.40'', yearlySaving = Some ''$71.04'',
              features = []\<rparr>]]\<rparr>)"
    by code_simp
  have l: "length (quoteArrays heapB) = 1" by (simp add: heapB_def)
  show ?thesis
    using a b n d r extraction_is_pure [OF a b refl n, of examplePageText]
      extraction_is_pure [OF b a refl n [symmetric], of examplePageText]
    by (simp add: l)
qed

subsection \<open>The example of the specification\<close>

text \<open>
  C6, as the claim states it, fails: in \<open>twoPricesText\<close> the name is followed by the four
  fragments of the example, and the yearly price extracted is the one that comes first in
  the window, \<open>$99.00\<close>.
\<close>

theorem earlier_yearly_price_wins:
  "twoPricesText = quoted '' $99.00/Yearly '' '' '' '' '' '' '' \<and>
   extractProductsFromText twoPricesText [''Comprehensive'', ''Complete Care''] =
     [\<lparr>name = ''Comprehensive'', yearlyPrice = ''$99.00'', monthlyPrice = ''$10.50'',
       totalOver12Months = ''$120.50'', yearlySaving = Some ''$15.00'', features = []\<rparr>]"
proof -
  have "twoPricesText = quoted '' $99.00/Yearly '' '' '' '' '' '' ''"
    by (simp add: quoted_def twoPricesText_def)
  moreover have "extractProductsFromText twoPricesText [''Comprehensive'', ''Complete Care''] =
     [\<lparr>name = ''Comprehensive'', yearlyPrice = ''$99.00'', monthlyPrice = ''$10.50'',
       totalOver12Months = ''$120.50'', yearlySaving = Some ''$15.00'', features = []\<rparr>]"
    by code_simp
  ultimately show ?thesis by (rule conjI)
qed

text \<open>
  Searching through text that is not known: a stretch of text in which the pattern
  cannot start is skipped, and the literal characters a pattern starts with decide
  where it can start.
\<close>

lemma bt_lits_prefix: "bt (lits L @ as) s = Some r \<Longrightarrow> prefix L s"
proof (induction L arbitrary: s r)
  case Nil
  then show ?case by simp
next
  case (Cons c L)
  then show ?case
    by (cases s) (auto simp: lits_def split: if_splits)
qed

lemma search_gap:
  assumes "\<And>w. w \<noteq> [] \<Longrightarrow> suffix w u \<Longrightarrow> bt p (w @ v) = None"
  shows "search p (u @ v) = search p v"
  using assms
proof (induction u)
  case Nil
  then show ?case by simp
next
  case (Cons x u)
  have "bt p ((x # u) @ v) = None"
    by (rule Cons.prems) simp_all
  moreover have "search p (u @ v) = search p v"
    by (rule Cons.IH) (simp add: Cons.prems suffix_Cons)
  ultimately show ?case by simp
qed

lemma prefix_Cons_append:
  "prefix (x # xs) (w @ t) =
     (case w of [] \<Rightarrow> prefix (x # xs) t | y # w' \<Rightarrow> x = y \<and> prefix xs (w' @ t))"
  by (cases w) auto

lemma yearly_pattern:
  "pattern yearlyRe = Lit (CHR ''$'') # amount @ Star Space # lits ''/Yearly''"
  by (simp add: pattern_def yearlyRe_def lits_def)

lemma search_gap_dollar:
  assumes "CHR ''$'' \<notin> set u"
  shows "search (Lit (CHR ''$'') # as) (u @ v) = search (Lit (CHR ''$'') # as) v"
proof (rule search_gap)
  fix w assume "w \<noteq> []" "suffix w u"
  then obtain c w' where "w = c # w'" "c \<in> set u"
    by (cases w) (auto dest: set_mono_suffix)
  with assms show "bt (Lit (CHR ''$'') # as) (w @ v) = None" by auto
qed

lemma monthly_pattern:
  "pattern monthlyRe = Lit (CHR ''$'') # amount @ Star Space # lits ''/Monthly''"
  by (simp add: pattern_def monthlyRe_def lits_def)

lemma total_pattern:
  "pattern totalRe = Lit (CHR ''('') # Lit (CHR ''$'') # amount @ Star Space # lits ''over 12 months)''"
  by (simp add: pattern_def totalRe_def lits_def)

lemma saving_pattern:
  "pattern savingRe = lits ''Save $'' @ amount"
  by (simp add: pattern_def savingRe_def)

lemma search_gap_paren_dollar:
  assumes "CHR ''$'' \<notin> set u"
    and "bt (Lit (CHR ''('') # Lit (CHR ''$'') # as) (CHR ''('' # v) = None"
  shows "search (Lit (CHR ''('') # Lit (CHR ''$'') # as) (u @ v) =
         search (Lit (CHR ''('') # Lit (CHR ''$'') # as) v"
proof (rule search_gap)
  fix w assume w: "w \<noteq> []" "suffix w u"
  then obtain c w' where c: "w = c # w'" by (cases w) auto
  show "bt (Lit (CHR ''('') # Lit (CHR ''$'') # as) (w @ v) = None"
  proof (cases w')
    case Nil
    with c assms(2) show ?thesis by auto
  next
    case (Cons d w'')
    with c w have "d \<in> set u" by (auto dest: set_mono_suffix)
    with assms(1) have "d \<noteq> CHR ''$''" by auto
    with c Cons show ?thesis by auto
  qed
qed

lemma search_gap_save:
  assumes "CHR ''$'' \<notin> set u"
    and "\<not> prefix ''ave $'' v" "\<not> prefix ''ve $'' v" "\<not> prefix ''e $'' v" "\<not> prefix '' $'' v"
    and "\<not> (prefix ''$'' v \<and> suffix ''Save '' u)"
  shows "search (lits ''Save $'' @ as) (u @ v) = search (lits ''Save $'' @ as) v"
proof (rule search_gap)
  fix w assume w: "w \<noteq> []" "suffix w u"
  show "bt (lits ''Save $'' @ as) (w @ v) = None"
  proof (rule ccontr)
    assume "bt (lits ''Save $'' @ as) (w @ v) \<noteq> None"
    then have p: "prefix ''Save $'' (w @ v)"
      by (auto dest: bt_lits_prefix)
    from w assms(1) have d: "CHR ''$'' \<notin> set w"
      by (auto dest: set_mono_suffix)
    from p d w(1) assms(2-5) have "w = ''Save '' \<and> prefix ''$'' v"
      by (auto simp: prefix_Cons_append split: list.splits)
    with w(2) assms(6) show False by simp
  qed
qed

lemma group_position:
  "length (before yearlyRe) = 1" "length (group1 yearlyRe) = 3"
  "length (before monthlyRe) = 1" "length (group1 monthlyRe) = 3"
  "length (before totalRe) = 2" "length (group1 totalRe) = 3"
  "length (before savingRe) = 6" "length (group1 savingRe) = 3"
  by (simp_all add: yearlyRe_def monthlyRe_def totalRe_def savingRe_def lits_def amount_def)

lemma chunk_yearly:
  "CHR ''$'' \<notin> set g1 \<Longrightarrow> match1 (quoted g1 g2 g3 g4 @ t) yearlyRe = Some ''120.50''"
  by (simp add: match1_def pattern_def [symmetric] quoted_def yearly_pattern amount_def lits_def
        search_gap_dollar group_position)

lemma chunk_monthly:
  "CHR ''$'' \<notin> set g1 \<Longrightarrow> CHR ''$'' \<notin> set g2 \<Longrightarrow>
   match1 (quoted g1 g2 g3 g4 @ t) monthlyRe = Some ''10.50''"
  by (simp add: match1_def pattern_def [symmetric] quoted_def monthly_pattern amount_def lits_def
        search_gap_dollar group_position)

lemma chunk_total:
  "CHR ''$'' \<notin> set g1 \<Longrightarrow> CHR ''$'' \<notin> set g2 \<Longrightarrow> CHR ''$'' \<notin> set g3 \<Longrightarrow>
   match1 (quoted g1 g2 g3 g4 @ t) totalRe = Some ''120.50''"
  by (simp add: match1_def pattern_def [symmetric] quoted_def total_pattern amount_def lits_def
        search_gap_paren_dollar group_position)

lemmas search_gap_save' = search_gap_save [unfolded lits_def, simplified]

lemma chunk_saving:
  assumes "CHR ''$'' \<notin> set g1" "CHR ''$'' \<notin> set g2" "CHR ''$'' \<notin> set g3" "CHR ''$'' \<notin> set g4"
    and "\<not> suffix ''Save '' g1" "\<not> suffix ''Save '' g2"
    and "case t of [] \<Rightarrow> True | c # _ \<Rightarrow> \<not> inClass Digit c"
  shows "match1 (quoted g1 g2 g3 g4 @ t) savingRe = Some ''15.00''"
proof -
  have at: "bt (map Lit ''Save $'' @ amount) (''Save $15.00'' @ t) =
              Some [''S'', ''a'', ''v'', ''e'', '' '', ''$'', ''15'', ''.'', ''00'']"
    using assms(7) by (cases t) (simp_all add: amount_def)
  have "search (pattern savingRe) (quoted g1 g2 g3 g4 @ t) =
          Some [''S'', ''a'', ''v'', ''e'', '' '', ''$'', ''15'', ''.'', ''00'']"
    using assms(1-6) at
    by (simp add: quoted_def saving_pattern lits_def search_gap_save')
  then show ?thesis
    by (simp add: match1_def pattern_def [symmetric] group_position)
qed

lemma take_keeps_head: "\<not> startsWithDigit t \<Longrightarrow> \<not> startsWithDigit (take k t)"
  by (cases t; cases k) (auto simp: startsWithDigit_def)

text \<open>
  C6, amended. Let the first occurrence of \<open>Comprehensive\<close> in the page text be followed
  by \<open>$120.50/Yearly\<close>, \<open>$10.50/Monthly\<close>, \<open>($120.50 over 12 months)\<close> and
  \<open>Save $15.00\<close>, in this order and all within 500 characters from the start of the
  name. If the text between the pieces has no dollar sign, the text just before the
  first two prices does not end in \<open>Save \<close>, and no digit follows \<open>Save $15.00\<close>, then
  for every list of product names that has \<open>Comprehensive\<close> in it the extraction yields
  the quote with name \<open>Comprehensive\<close>, yearly price \<open>$120.50\<close>, monthly price
  \<open>$10.50\<close>, total over 12 months \<open>$120.50\<close> and yearly saving \<open>$15.00\<close>.
\<close>

theorem spec_example_quote:
  assumes "indexOf text ''Comprehensive'' = Some idx"
    and "drop idx text = quoted g1 g2 g3 g4 @ rest"
    and "length (quoted g1 g2 g3 g4) \<le> 500"
    and "CHR ''$'' \<notin> set (g1 @ g2 @ g3 @ g4)"
    and "\<not> suffix ''Save '' g1" and "\<not> suffix ''Save '' g2"
    and "\<not> startsWithDigit rest"
    and "''Comprehensive'' \<in> set productNames"
  shows "\<lparr>name = ''Comprehensive'', yearlyPrice = ''$120.50'', monthlyPrice = ''$10.50'',
          totalOver12Months = ''$120.50'', yearlySaving = Some ''$15.00'', features = []\<rparr>
         \<in> set (extractProductsFromText text productNames)"
proof -
  define t where "t = take (500 - length (quoted g1 g2 g3 g4)) rest"
  have w: "window text ''Comprehensive'' = Some (quoted g1 g2 g3 g4 @ t)"
    using assms(1-3) by (simp add: window_def substring_def t_def)
  have "\<not> startsWithDigit t"
    unfolding t_def using assms(7) by (rule take_keeps_head)
  then have t: "case t of [] \<Rightarrow> True | c # _ \<Rightarrow> \<not> inClass Digit c"
    by (simp add: startsWithDigit_def split: list.splits)
  have d: "CHR ''$'' \<notin> set g1" "CHR ''$'' \<notin> set g2" "CHR ''$'' \<notin> set g3" "CHR ''$'' \<notin> set g4"
    using assms(4) by simp_all
  have "quoteFor text ''Comprehensive'' =
          Some \<lparr>name = ''Comprehensive'', yearlyPrice = ''$120.50'', monthlyPrice = ''$10.50'',
                totalOver12Months = ''$120.50'', yearlySaving = Some ''$15.00'', features = []\<rparr>"
    by (simp add: quoteFor_def w quoteFrom_def chunk_yearly [OF d(1)] chunk_monthly [OF d(1,2)]
          chunk_total [OF d(1,2,3)] chunk_saving [OF d assms(5,6) t])
  with assms(8) show ?thesis by (rule quoteFor_in_extract)
qed

theorem spec_example_quote_witness:
  "indexOf specExampleText ''Comprehensive'' = Some 0 \<and>
   drop 0 specExampleText = quoted '' ... '' '' ... '' '' ... '' '' ... '' @ [] \<and>
   length (quoted '' ... '' '' ... '' '' ... '' '' ... '') \<le> 500 \<and>
   CHR ''$'' \<notin> set ('' ... '' @ '' ... '' @ '' ... '' @ '' ... '') \<and>
   \<not> suffix ''Save '' '' ... '' \<and>
   \<not> startsWithDigit [] \<and>
   ''Comprehensive'' \<in> set [''Comprehensive'', ''Complete Care''] \<and>
   \<lparr>name = ''Comprehensive'', yearlyPrice = ''$120.50'', monthlyPrice = ''$10.50'',
     totalOver12Months = ''$120.50'', yearlySaving = Some ''$15.00'', features = []\<rparr>
     \<in> set (extractProductsFromText specExampleText [''Comprehensive'', ''Complete Care''])"
proof -
  have 1: "indexOf specExampleText ''Comprehensive'' = Some 0"
    by (simp add: specExampleText_def)
  have 2: "drop 0 specExampleText = quoted '' ... '' '' ... '' '' ... '' '' ... '' @ []"
    by (simp add: specExampleText_def quoted_def)
  have 3: "length (quoted '' ... '' '' ... '' '' ... '' '' ... '') \<le> 500"
    by (simp add: quoted_def)
  have 4: "CHR ''$'' \<notin> set ('' ... '' @ '' ... '' @ '' ... '' @ '' ... '')"
    by simp
  have 5: "\<not> suffix ''Save '' '' ... ''"
    by (simp add: suffix_def Cons_eq_append_conv)
  have 7: "\<not> startsWithDigit []"
    by (simp add: startsWithDigit_def)
  have 8: "''Comprehensive'' \<in> set [''Comprehensive'', ''Complete Care'']"
    by simp
  show ?thesis
    using 1 2 3 4 5 7 8 spec_example_quote [OF 1 2 3 4 5 5 7 8]
    by simp
qed

end
